theory Spec2Isabelle
  imports Main "HOL-Library.Monad_Syntax"
begin

section \<open>JavaScript values as the utilities see them\<close>

text \<open>
  The utilities of \<^verbatim>\<open>src/utils/normalize.ts\<close> and the hook of
  \<^verbatim>\<open>src/hooks/useNormalizedState.ts\<close> work on plain data: records
  (\<^verbatim>\<open>Record<string, any>\<close>) whose fields hold \<^verbatim>\<open>undefined\<close>,
  \<^verbatim>\<open>null\<close>, booleans, numbers, strings, arrays and further records.

  A JavaScript number is a double. The numbers of the model are the integers that a
  double holds exactly and that JavaScript prints in plain decimal, the safe integers
  from \<open>-(2\<^sup>5\<^sup>3 - 1)\<close> to \<open>2\<^sup>5\<^sup>3 - 1\<close>; fractions, larger numbers,
  \<^verbatim>\<open>NaN\<close> and the infinities have no counterpart here.
\<close>

typedef safe_integer = "{n :: int. - 9007199254740991 \<le> n \<and> n \<le> 9007199254740991}"
  by (rule exI [of _ 0]) simp

datatype jsval =
    Undefined
  | Null
  | Bool bool
  | Number safe_integer
  | Str string
  | Obj "(string \<times> jsval) list"
  | Arr "jsval list"

text \<open>
  The number literal \<open>i\<close>, for a safe integer \<open>i\<close>; for another \<open>i\<close> the
  term stands for no number in particular.
\<close>

definition Num :: "int \<Rightarrow> jsval" where
  "Num i = Number (Abs_safe_integer i)"

text \<open>
  Reading a property goes through the prototype chain, so it may give a member of
  \<^verbatim>\<open>Object.prototype\<close> or of \<^verbatim>\<open>Array.prototype\<close> instead of data:
  one of their functions, named here by the property that holds it, or, through the
  accessor \<^verbatim>\<open>__proto__\<close>, one of the two prototype objects.
\<close>

datatype jsany =
    Data jsval
  | ObjectMember string
  | ArrayMember string
  | ObjectPrototype
  | ArrayPrototype

text \<open>
  A record is the list of its own properties in the order JavaScript enumerates them:
  the array-index names first, in ascending numeric order, then the other names in the
  order of their creation. Its prototype is \<^verbatim>\<open>Object.prototype\<close>. A
  field holds data or, as the field that \<^verbatim>\<open>extractEntities\<close> adds to a
  copy may, a member read off a prototype.
\<close>

type_synonym jsobj = "(string \<times> jsany) list"

text \<open>\<^verbatim>\<open>Record<string | number, T>\<close>: the keys are property names, hence strings.\<close>

type_synonym 'a emap = "(string \<times> 'a) list"

datatype js_error = TypeError

subsection \<open>Numbers and property names\<close>

definition digit :: "nat \<Rightarrow> char" where
  "digit d = ''0123456789'' ! d"

function string_of_nat :: "nat \<Rightarrow> string" where
  "string_of_nat n =
     (if n < 10 then [digit n] else string_of_nat (n div 10) @ [digit (n mod 10)])"
  by pat_completeness auto
termination
  by (relation "measure id") auto

declare string_of_nat.simps [simp del]

definition string_of_int :: "int \<Rightarrow> string" where
  "string_of_int i =
     (if i < 0 then CHR ''-'' # string_of_nat (nat (- i)) else string_of_nat (nat i))"

text \<open>\<^verbatim>\<open>Array.prototype.join\<close> with the default separator.\<close>

fun join_comma :: "string list \<Rightarrow> string" where
  "join_comma [] = []"
| "join_comma [s] = s"
| "join_comma (s # t # ss) = s @ CHR '','' # join_comma (t # ss)"

text \<open>
  \<^verbatim>\<open>ToString\<close> of data. A record is converted by the first callable of its
  \<^verbatim>\<open>toString\<close> and \<^verbatim>\<open>valueOf\<close> that returns a primitive: the inherited
  \<^verbatim>\<open>Object.prototype.toString\<close> gives \<^verbatim>\<open>[object Object]\<close>; an own
  property \<^verbatim>\<open>toString\<close> holds data, which is not callable, and hides the
  inherited function, and \<^verbatim>\<open>valueOf\<close>, own or inherited, gives no primitive, so
  the conversion throws a \<^verbatim>\<open>TypeError\<close>. An array is converted by
  \<^verbatim>\<open>Array.prototype.join\<close>: its elements from left to right, separated by
  commas, \<^verbatim>\<open>undefined\<close> and \<^verbatim>\<open>null\<close> as nothing.
\<close>

fun ToString :: "jsval \<Rightarrow> js_error + string"
  and join_elements :: "jsval list \<Rightarrow> js_error + string list" where
  "ToString Undefined = Inr ''undefined''"
| "ToString Null = Inr ''null''"
| "ToString (Bool b) = Inr (if b then ''true'' else ''false'')"
| "ToString (Number n) = Inr (string_of_int (Rep_safe_integer n))"
| "ToString (Str s) = Inr s"
| "ToString (Obj ps) = (if map_of ps ''toString'' = None then Inr ''[object Object]'' else Inl TypeError)"
| "ToString (Arr xs) = (case join_elements xs of Inl e \<Rightarrow> Inl e | Inr ss \<Rightarrow> Inr (join_comma ss))"
| "join_elements [] = Inr []"
| "join_elements (x # xs) =
     (case (if x = Undefined \<or> x = Null then Inr [] else ToString x) of
        Inl e \<Rightarrow> Inl e
      | Inr s \<Rightarrow> (case join_elements xs of Inl e \<Rightarrow> Inl e | Inr ss \<Rightarrow> Inr (s # ss)))"

text \<open>
  The members of \<^verbatim>\<open>Object.prototype\<close> and the function members of
  \<^verbatim>\<open>Array.prototype\<close> (ECMAScript 2023); \<^verbatim>\<open>__proto__\<close> is an accessor,
  the others of \<^verbatim>\<open>Object.prototype\<close> are functions. \<^verbatim>\<open>Array.prototype\<close>
  has the property \<^verbatim>\<open>length\<close> besides.
\<close>

definition object_prototype_names :: "string list" where
  "object_prototype_names =
     [''constructor'', ''__defineGetter__'', ''__defineSetter__'', ''hasOwnProperty'',
      ''__lookupGetter__'', ''__lookupSetter__'', ''isPrototypeOf'', ''propertyIsEnumerable'',
      ''toString'', ''valueOf'', ''__proto__'', ''toLocaleString'']"

definition array_prototype_names :: "string list" where
  "array_prototype_names =
     [''constructor'', ''at'', ''concat'', ''copyWithin'', ''fill'', ''find'', ''findIndex'',
      ''findLast'', ''findLastIndex'', ''lastIndexOf'', ''pop'', ''push'', ''reverse'', ''shift'',
      ''unshift'', ''slice'', ''sort'', ''splice'', ''includes'', ''indexOf'', ''join'', ''keys'',
      ''entries'', ''values'', ''forEach'', ''filter'', ''flat'', ''flatMap'', ''map'', ''every'',
      ''some'', ''reduce'', ''reduceRight'', ''toLocaleString'', ''toString'', ''toReversed'',
      ''toSorted'', ''toSpliced'', ''with'']"

text \<open>
  The source text of a built-in function, as V8 prints it. The property
  \<^verbatim>\<open>constructor\<close> of a prototype holds the function \<^verbatim>\<open>Object\<close>,
  respectively \<^verbatim>\<open>Array\<close>; every other function has the name of its property.
\<close>

definition native_function :: "string \<Rightarrow> string" where
  "native_function name = ''function '' @ name @ ''() { [native code] }''"

text \<open>
  \<^verbatim>\<open>ToPropertyKey\<close>: what a computed key \<^verbatim>\<open>[v]\<close> or an index
  \<^verbatim>\<open>obj[v]\<close> turns \<open>v\<close> into. \<^verbatim>\<open>Object.prototype\<close> prints as a
  record does, \<^verbatim>\<open>Array.prototype\<close> as the empty array.
\<close>

fun ToPropertyKey :: "jsany \<Rightarrow> js_error + string" where
  "ToPropertyKey (Data v) = ToString v"
| "ToPropertyKey (ObjectMember k) =
     Inr (native_function (if k = ''constructor'' then ''Object'' else k))"
| "ToPropertyKey (ArrayMember k) =
     Inr (native_function (if k = ''constructor'' then ''Array'' else k))"
| "ToPropertyKey ObjectPrototype = Inr ''[object Object]''"
| "ToPropertyKey ArrayPrototype = Inr []"

definition parse_nat :: "string \<Rightarrow> nat" where
  "parse_nat s = foldl (\<lambda>a c. 10 * a + (of_char c - 48)) 0 s"

text \<open>
  An array index is a canonical numeric string (printing its number gives the string
  back) whose value is at most \<open>2\<^sup>3\<^sup>2 - 2\<close>.
\<close>

definition is_array_index :: "string \<Rightarrow> bool" where
  "is_array_index s \<longleftrightarrow>
     list_all (\<lambda>c. c \<in> set ''0123456789'') s \<and> string_of_nat (parse_nat s) = s
     \<and> parse_nat s < 4294967295"

subsection \<open>Properties\<close>

text \<open>
  What an object whose prototype chain ends in \<^verbatim>\<open>Object.prototype\<close> inherits
  from it under the name \<open>k\<close>; the accessor \<^verbatim>\<open>__proto__\<close> gives the
  prototype \<open>proto\<close> of the object that is read.
\<close>

definition object_member :: "jsany \<Rightarrow> string \<Rightarrow> jsany" where
  "object_member proto k =
     (if k = ''__proto__'' then proto
      else if k \<in> set object_prototype_names then ObjectMember k
      else Data Undefined)"

text \<open>\<^verbatim>\<open>item[k]\<close> on a record: the own property, else the inherited member.\<close>

definition js_get :: "jsobj \<Rightarrow> string \<Rightarrow> jsany" where
  "js_get ps k = (case map_of ps k of None \<Rightarrow> object_member ObjectPrototype k | Some v \<Rightarrow> v)"

text \<open>The object has an own property of that name.\<close>

definition js_has :: "'a emap \<Rightarrow> string \<Rightarrow> bool" where
  "js_has ps k \<longleftrightarrow> map_of ps k \<noteq> None"

text \<open>A new array-index name goes in front of the first name that comes after it.\<close>

fun insert_index :: "'a emap \<Rightarrow> string \<Rightarrow> 'a \<Rightarrow> 'a emap" where
  "insert_index [] k v = [(k, v)]"
| "insert_index ((k', v') # ps) k v =
     (if is_array_index k' \<and> parse_nat k' < parse_nat k
      then (k', v') # insert_index ps k v
      else (k, v) # (k', v') # ps)"

text \<open>
  Defining an own property, as the object literal \<^verbatim>\<open>{ ...obj, [k]: v }\<close> does
  for every name: an existing property keeps its place and takes the new value, a new
  one is added.
\<close>

definition js_set :: "'a emap \<Rightarrow> string \<Rightarrow> 'a \<Rightarrow> 'a emap" where
  "js_set ps k v =
     (if js_has ps k then map (\<lambda>p. if fst p = k then (k, v) else p) ps
      else if is_array_index k then insert_index ps k v
      else ps @ [(k, v)])"

definition js_delete :: "'a emap \<Rightarrow> string \<Rightarrow> 'a emap" where
  "js_delete ps k = filter (\<lambda>p. fst p \<noteq> k) ps"

text \<open>\<^verbatim>\<open>{ ...a, ...b }\<close>: the properties of \<open>b\<close> defined over a copy of \<open>a\<close>.\<close>

definition js_spread :: "'a emap \<Rightarrow> 'a emap \<Rightarrow> 'a emap" where
  "js_spread a b = foldl (\<lambda>acc p. js_set acc (fst p) (snd p)) a b"

text \<open>
  The assignment \<^verbatim>\<open>obj[k] = v\<close> of an object \<open>v\<close> to a property of a local
  object, given by its own properties and its prototype (\<open>None\<close> is
  \<^verbatim>\<open>Object.prototype\<close>, with which an object literal starts). The assignment looks
  the name up along the prototype chain. Every name but \<^verbatim>\<open>__proto__\<close> is found
  as a data property or not at all, and the assignment defines the own property. The
  name \<^verbatim>\<open>__proto__\<close> is found as an own property, or as an own property of the
  prototype (\<open>shadows\<close> tells whether the prototype has one), and the assignment defines
  the own property; or else it is found as the accessor of
  \<^verbatim>\<open>Object.prototype\<close>, whose setter makes \<open>v\<close> the prototype of the object
  and leaves the own properties as they are.
\<close>

definition js_assign ::
  "('a \<Rightarrow> bool) \<Rightarrow> 'a emap \<times> 'a option \<Rightarrow> string \<Rightarrow> 'a \<Rightarrow> 'a emap \<times> 'a option" where
  "js_assign shadows obj k v =
     (if k = ''__proto__'' \<and> \<not> js_has (fst obj) k
         \<and> \<not> (case snd obj of None \<Rightarrow> False | Some p \<Rightarrow> shadows p)
      then (fst obj, Some v)
      else (js_set (fst obj) k v, snd obj))"

section \<open>normalize and denormalize\<close>

text \<open>
  \<^verbatim>\<open>console.warn\<close> is the one effect of the module: the console is the list of
  the calls made, each with its message and the record it was given.
\<close>

type_synonym console = "(string \<times> jsobj) list"

definition missing_key_message :: "string \<Rightarrow> string" where
  "missing_key_message key = ''normalize: item missing key '' @ [CHR 0x22] @ key @ [CHR 0x22]"

text \<open>
  The reducer of \<^verbatim>\<open>normalize\<close>; the state is the console and \<^verbatim>\<open>acc\<close>,
  or the error that a computed key has thrown, after which the loop runs no further.
\<close>

definition normalize_step ::
  "string \<Rightarrow> console \<times> (js_error + jsobj emap) \<Rightarrow> jsobj \<Rightarrow> console \<times> (js_error + jsobj emap)" where
  "normalize_step key st item =
     (case snd st of
        Inl e \<Rightarrow> st
      | Inr acc \<Rightarrow>
          (let keyValue = js_get item key in
           if keyValue = Data Undefined \<or> keyValue = Data Null
           then (fst st @ [(missing_key_message key, item)], Inr acc)
           else (case ToPropertyKey keyValue of
                   Inl e \<Rightarrow> (fst st, Inl e)
                 | Inr k \<Rightarrow> (fst st, Inr (js_set acc k item)))))"

text \<open>
  \<^verbatim>\<open>normalize(arr, key)\<close>: \<^verbatim>\<open>arr.reduce\<close> from the empty record. The
  result is the console output and the returned map or the error thrown. (HOL has a
  constant \<open>normalize\<close> of its own, hence the longer name.)
\<close>

definition normalize_entities :: "jsobj list \<Rightarrow> string \<Rightarrow> console \<times> (js_error + jsobj emap)" where
  "normalize_entities arr key = foldl (normalize_step key) ([], Inr []) arr"

text \<open>\<^verbatim>\<open>denormalize(obj)\<close> is \<^verbatim>\<open>Object.values(obj)\<close>.\<close>

definition denormalize :: "'a emap \<Rightarrow> 'a list" where
  "denormalize obj = map snd obj"

subsection \<open>The words of the specification\<close>

text \<open>A record carries the identifier field when it has a property of that name.\<close>

definition carries_all :: "string \<Rightarrow> jsobj list \<Rightarrow> bool" where
  "carries_all key arr = list_all (\<lambda>item. js_has item key) arr"

definition id_values :: "string \<Rightarrow> jsobj list \<Rightarrow> jsany list" where
  "id_values key arr = map (\<lambda>item. js_get item key) arr"

text \<open>
  A record is keyed when its identifier, as \<^verbatim>\<open>item[key]\<close> reads it, is neither
  \<^verbatim>\<open>undefined\<close> nor \<^verbatim>\<open>null\<close>.
\<close>

definition keyed :: "string \<Rightarrow> jsobj \<Rightarrow> bool" where
  "keyed key item \<longleftrightarrow> js_get item key \<noteq> Data Undefined \<and> js_get item key \<noteq> Data Null"

text \<open>The property names of the identifiers, where the conversion gives one.\<close>

definition id_keys :: "string \<Rightarrow> jsobj list \<Rightarrow> (js_error + string) list" where
  "id_keys key arr = map (\<lambda>item. ToPropertyKey (js_get item key)) arr"

definition named :: "string \<Rightarrow> jsobj \<Rightarrow> bool" where
  "named key item \<longleftrightarrow> ToPropertyKey (js_get item key) \<noteq> Inl TypeError"

text \<open>The number of records of a collection that have the identifier field.\<close>

definition count_carrying :: "string \<Rightarrow> jsobj list \<Rightarrow> nat" where
  "count_carrying key arr = length (filter (\<lambda>item. js_has item key) arr)"

section \<open>extractEntities\<close>

fun truthy :: "jsany \<Rightarrow> bool" where
  "truthy (Data Undefined) = False"
| "truthy (Data Null) = False"
| "truthy (Data (Bool b)) = b"
| "truthy (Data (Number n)) = (Rep_safe_integer n \<noteq> 0)"
| "truthy (Data (Str s)) = (s \<noteq> [])"
| "truthy v = True"

fun typeof :: "jsany \<Rightarrow> string" where
  "typeof (Data Undefined) = ''undefined''"
| "typeof (Data (Bool b)) = ''boolean''"
| "typeof (Data (Number n)) = ''number''"
| "typeof (Data (Str s)) = ''string''"
| "typeof (ObjectMember k) = ''function''"
| "typeof (ArrayMember k) = ''function''"
| "typeof v = ''object''"

text \<open>
  \<^verbatim>\<open>k in v\<close> and \<^verbatim>\<open>v[k]\<close> for the objects: a record, an array (its
  \<^verbatim>\<open>length\<close>, its indices and what it inherits from \<^verbatim>\<open>Array.prototype\<close>
  and, behind it, \<^verbatim>\<open>Object.prototype\<close>) and the two prototypes themselves. On a
  primitive \<^verbatim>\<open>in\<close> throws, but \<^verbatim>\<open>extractEntities\<close> evaluates both only
  behind \<^verbatim>\<open>entity && typeof entity === 'object'\<close>, so the last equations are
  never reached.
\<close>

fun js_in :: "string \<Rightarrow> jsany \<Rightarrow> bool" where
  "js_in k (Data (Obj ps)) = (map_of ps k \<noteq> None \<or> k \<in> set object_prototype_names)"
| "js_in k (Data (Arr xs)) =
     (k = ''length'' \<or> (is_array_index k \<and> parse_nat k < length xs)
      \<or> k \<in> set array_prototype_names \<or> k \<in> set object_prototype_names)"
| "js_in k ObjectPrototype = (k \<in> set object_prototype_names)"
| "js_in k ArrayPrototype =
     (k = ''length'' \<or> k \<in> set array_prototype_names \<or> k \<in> set object_prototype_names)"
| "js_in k v = False"

fun js_index :: "jsany \<Rightarrow> string \<Rightarrow> jsany" where
  "js_index (Data (Obj ps)) k =
     (case map_of ps k of None \<Rightarrow> object_member ObjectPrototype k | Some v \<Rightarrow> Data v)"
| "js_index (Data (Arr xs)) k =
     (if k = ''length'' then Data (Num (int (length xs)))
      else if is_array_index k \<and> parse_nat k < length xs then Data (xs ! parse_nat k)
      else if k \<in> set array_prototype_names then ArrayMember k
      else object_member ArrayPrototype k)"
| "js_index ObjectPrototype k = object_member (Data Null) k"
| "js_index ArrayPrototype k =
     (if k = ''length'' then Data (Num 0)
      else if k \<in> set array_prototype_names then ArrayMember k
      else object_member ObjectPrototype k)"
| "js_index v k = Data Undefined"

text \<open>
  The two locals \<^verbatim>\<open>normalizedItems\<close> and \<^verbatim>\<open>entities\<close>, returned as
  \<^verbatim>\<open>{ items: normalizedItems, entities }\<close>, each with its own properties and
  its prototype. (The parameter \<^verbatim>\<open>items\<close> of the function is written
  \<open>arr\<close>.)
\<close>

record extracted =
  items :: "jsobj emap"
  items_proto :: "jsobj option"
  entities :: "jsany emap"
  entities_proto :: "jsany option"

text \<open>A record with an own property \<^verbatim>\<open>__proto__\<close> hides the accessor.\<close>

definition record_shadows :: "jsobj \<Rightarrow> bool" where
  "record_shadows p = js_has p ''__proto__''"

fun entity_shadows :: "jsany \<Rightarrow> bool" where
  "entity_shadows (Data (Obj ps)) = (map_of ps ''__proto__'' \<noteq> None)"
| "entity_shadows v = False"

text \<open>
  The body of the \<^verbatim>\<open>forEach\<close>. \<^verbatim>\<open>itemCopy\<close> is a fresh record with the
  properties of \<^verbatim>\<open>item\<close>; the deletion and the assignment change the copy
  (the assigned name ends in \<^verbatim>\<open>Id\<close>, so it is not \<^verbatim>\<open>__proto__\<close>).
  An error thrown by a computed key ends the loop.
\<close>

definition extract_step :: "string \<Rightarrow> string \<Rightarrow> js_error + extracted \<Rightarrow> jsobj \<Rightarrow> js_error + extracted" where
  "extract_step entityKey idKey st item =
     (case st of
        Inl e \<Rightarrow> Inl e
      | Inr s \<Rightarrow>
          (let entity = js_get item entityKey;
               itemCopy = item
           in if truthy entity \<and> typeof entity = ''object'' \<and> js_in idKey entity
              then
                (let entityId = js_index entity idKey in
                 case ToPropertyKey entityId of
                   Inl e \<Rightarrow> Inl e
                 | Inr entityName \<Rightarrow>
                     (let ents = js_assign entity_shadows (entities s, entities_proto s) entityName entity;
                          itemCopy' = js_set (js_delete itemCopy entityKey) (entityKey @ ''Id'') entityId
                      in case ToPropertyKey (js_get item idKey) of
                           Inl e \<Rightarrow> Inl e
                         | Inr itemName \<Rightarrow>
                             (let nitems = js_assign record_shadows (items s, items_proto s) itemName itemCopy'
                              in Inr \<lparr>items = fst nitems, items_proto = snd nitems,
                                      entities = fst ents, entities_proto = snd ents\<rparr>)))
              else
                (case ToPropertyKey (js_get item idKey) of
                   Inl e \<Rightarrow> Inl e
                 | Inr itemName \<Rightarrow>
                     (let nitems = js_assign record_shadows (items s, items_proto s) itemName itemCopy
                      in Inr (s\<lparr>items := fst nitems, items_proto := snd nitems\<rparr>)))))"

definition extractEntities :: "jsobj list \<Rightarrow> string \<Rightarrow> string \<Rightarrow> js_error + extracted" where
  "extractEntities arr entityKey idKey =
     foldl (extract_step entityKey idKey)
       (Inr \<lparr>items = [], items_proto = None, entities = [], entities_proto = None\<rparr>) arr"

text \<open>The nested value is extracted when the guard of the loop holds for it.\<close>

definition extracts :: "string \<Rightarrow> string \<Rightarrow> jsobj \<Rightarrow> bool" where
  "extracts entityKey idKey item \<longleftrightarrow>
     truthy (js_get item entityKey) \<and> typeof (js_get item entityKey) = ''object''
     \<and> js_in idKey (js_get item entityKey)"

text \<open>
  The computed keys of the step for \<open>item\<close> convert to property names: the loop goes
  on after it.
\<close>

definition convertible :: "string \<Rightarrow> string \<Rightarrow> jsobj \<Rightarrow> bool" where
  "convertible entityKey idKey item \<longleftrightarrow>
     ToPropertyKey (js_get item idKey) \<noteq> Inl TypeError
     \<and> (extracts entityKey idKey item \<longrightarrow>
          ToPropertyKey (js_index (js_get item entityKey) idKey) \<noteq> Inl TypeError)"

text \<open>The record that the loop stores for \<open>item\<close>.\<close>

definition item_copy :: "string \<Rightarrow> string \<Rightarrow> jsobj \<Rightarrow> jsobj" where
  "item_copy entityKey idKey item =
     (if extracts entityKey idKey item
      then js_set (js_delete item entityKey) (entityKey @ ''Id'')
             (js_index (js_get item entityKey) idKey)
      else item)"

section \<open>useNormalizedState and the posts store\<close>

text \<open>
  The hook keeps one entity map in \<^verbatim>\<open>useState\<close>; each operation hands
  \<^verbatim>\<open>setState\<close> an updater from the previous map to the next, and React runs the
  updaters in the order of the calls. The updaters are modelled as functions on the map,
  the readers (\<^verbatim>\<open>hasEntity\<close>, \<^verbatim>\<open>count\<close>, ...) as functions of the
  current map. The maps are plain objects, as the object literals of
  \<^verbatim>\<open>addEntity\<close>, \<^verbatim>\<open>removeEntity\<close> and
  \<^verbatim>\<open>updateEntity\<close> build them: their prototype is
  \<^verbatim>\<open>Object.prototype\<close>. The parameter \<^verbatim>\<open>id\<close> is written
  \<open>ident\<close>.
\<close>

definition addEntity :: "jsobj emap \<Rightarrow> jsobj \<Rightarrow> js_error + jsobj emap" where
  "addEntity prev entity =
     (case ToPropertyKey (js_get entity ''id'') of
        Inl e \<Rightarrow> Inl e
      | Inr k \<Rightarrow> Inr (js_set prev k entity))"

definition removeEntity :: "jsobj emap \<Rightarrow> jsval \<Rightarrow> js_error + jsobj emap" where
  "removeEntity prev ident =
     (case ToPropertyKey (Data ident) of
        Inl e \<Rightarrow> Inl e
      | Inr k \<Rightarrow> Inr (js_delete prev k))"


definition entityIds :: "jsobj emap \<Rightarrow> string list" where
  "entityIds state = map fst state"

text \<open>\<^verbatim>\<open>id in state\<close> holds for the own and for the inherited names.\<close>

definition hasEntity :: "jsobj emap \<Rightarrow> jsval \<Rightarrow> js_error + bool" where
  "hasEntity state ident =
     (case ToPropertyKey (Data ident) of
        Inl e \<Rightarrow> Inl e
      | Inr k \<Rightarrow> Inr (js_has state k \<or> k \<in> set object_prototype_names))"

definition count :: "jsobj emap \<Rightarrow> nat" where
  "count state = length (entityIds state)"


section \<open>The store\<close>

text \<open>
  What the functions touch. The store holds the objects by address: the records, the
  entity maps (whose values are references to records), the arrays of references to
  records, and the two local objects of \<^verbatim>\<open>extractEntities\<close>, each with its own
  properties and its prototype (\<open>None\<close> is \<^verbatim>\<open>Object.prototype\<close>):
  \<^verbatim>\<open>normalizedItems\<close>, whose values are references to the copies, and
  \<^verbatim>\<open>entities\<close>, whose values are the nested values. An address is a position in
  the store, and a new object goes to the end. \<^verbatim>\<open>T[]\<close> is an array of references
  to records and \<^verbatim>\<open>Record<string | number, T>\<close> a map to references to
  records. The module assigns to and deletes properties of its three local objects only
  (\<^verbatim>\<open>entities\<close>, \<^verbatim>\<open>itemCopy\<close>, \<^verbatim>\<open>normalizedItems\<close>), which
  are the writes below. A read at an address that holds no object of the expected kind
  is outside the typed program and gives \<open>None\<close>.
\<close>

type_synonym addr = nat

datatype hobj =
    HRecord jsobj
  | HMap "addr emap"
  | HArray "addr list"
  | HItems "addr emap" "addr option"
  | HEntities "jsany emap" "jsany option"

type_synonym store = "hobj list"

definition store_alloc :: "store \<Rightarrow> hobj \<Rightarrow> store \<times> addr" where
  "store_alloc h obj = (h @ [obj], length h)"

definition store_read :: "store \<Rightarrow> addr \<Rightarrow> hobj option" where
  "store_read h a = (if a < length h then Some (h ! a) else None)"

definition record_at :: "store \<Rightarrow> addr \<Rightarrow> jsobj option" where
  "record_at h a = (case store_read h a of Some (HRecord ps) \<Rightarrow> Some ps | _ \<Rightarrow> None)"

definition map_at :: "store \<Rightarrow> addr \<Rightarrow> addr emap option" where
  "map_at h a = (case store_read h a of Some (HMap m) \<Rightarrow> Some m | _ \<Rightarrow> None)"

definition array_at :: "store \<Rightarrow> addr \<Rightarrow> addr list option" where
  "array_at h a = (case store_read h a of Some (HArray xs) \<Rightarrow> Some xs | _ \<Rightarrow> None)"

definition items_at :: "store \<Rightarrow> addr \<Rightarrow> (addr emap \<times> addr option) option" where
  "items_at h a = (case store_read h a of Some (HItems m p) \<Rightarrow> Some (m, p) | _ \<Rightarrow> None)"

definition entities_at :: "store \<Rightarrow> addr \<Rightarrow> (jsany emap \<times> jsany option) option" where
  "entities_at h a = (case store_read h a of Some (HEntities m p) \<Rightarrow> Some (m, p) | _ \<Rightarrow> None)"

text \<open>
  \<^verbatim>\<open>obj[k] = v\<close> and \<^verbatim>\<open>delete obj[k]\<close> on the object at an address: on
  \<^verbatim>\<open>itemCopy\<close>, where the name is not \<^verbatim>\<open>__proto__\<close>, and on the two
  local objects with a prototype. Whether the prototype of \<^verbatim>\<open>normalizedItems\<close>
  has an own property \<^verbatim>\<open>__proto__\<close> is read from the store.
\<close>

definition record_set :: "store \<Rightarrow> addr \<Rightarrow> string \<Rightarrow> jsany \<Rightarrow> store option" where
  "record_set h a k v =
     (case record_at h a of None \<Rightarrow> None | Some ps \<Rightarrow> Some (h[a := HRecord (js_set ps k v)]))"

definition record_delete :: "store \<Rightarrow> addr \<Rightarrow> string \<Rightarrow> store option" where
  "record_delete h a k =
     (case record_at h a of None \<Rightarrow> None | Some ps \<Rightarrow> Some (h[a := HRecord (js_delete ps k)]))"

definition shadows_at :: "store \<Rightarrow> addr \<Rightarrow> bool" where
  "shadows_at h p = (case record_at h p of None \<Rightarrow> False | Some ps \<Rightarrow> record_shadows ps)"

definition items_assign :: "store \<Rightarrow> addr \<Rightarrow> string \<Rightarrow> addr \<Rightarrow> store option" where
  "items_assign h a k v =
     (case items_at h a of
        None \<Rightarrow> None
      | Some obj \<Rightarrow>
          (let obj' = js_assign (shadows_at h) obj k v
           in Some (h[a := HItems (fst obj') (snd obj')])))"

definition entities_assign :: "store \<Rightarrow> addr \<Rightarrow> string \<Rightarrow> jsany \<Rightarrow> store option" where
  "entities_assign h a k v =
     (case entities_at h a of
        None \<Rightarrow> None
      | Some obj \<Rightarrow>
          (let obj' = js_assign entity_shadows obj k v
           in Some (h[a := HEntities (fst obj') (snd obj')])))"

text \<open>
  \<^verbatim>\<open>normalize\<close> on the store. The console holds the message and the reference
  that \<^verbatim>\<open>console.warn\<close> was given. Each \<^verbatim>\<open>{ ...acc, [keyValue]: item }\<close>
  is a new map. The state of the loop is the store, the console and the address of
  \<^verbatim>\<open>acc\<close> or the error thrown.
\<close>

type_synonym hconsole = "(string \<times> addr) list"

definition normalize_step_h ::
  "string \<Rightarrow> (store \<times> hconsole \<times> (js_error + addr)) option \<Rightarrow> addr
     \<Rightarrow> (store \<times> hconsole \<times> (js_error + addr)) option" where
  "normalize_step_h key st item =
     do {
       (h, con, res) \<leftarrow> st;
       (case res of
          Inl e \<Rightarrow> Some (h, con, Inl e)
        | Inr acc \<Rightarrow>
            do {
              props \<leftarrow> record_at h item;
              let keyValue = js_get props key;
              if keyValue = Data Undefined \<or> keyValue = Data Null
              then Some (h, con @ [(missing_key_message key, item)], Inr acc)
              else (case ToPropertyKey keyValue of
                      Inl e \<Rightarrow> Some (h, con, Inl e)
                    | Inr k \<Rightarrow>
                        do {
                          m \<leftarrow> map_at h acc;
                          let (h', acc') = store_alloc h (HMap (js_set m k item));
                          Some (h', con, Inr acc')
                        })
            })
     }"

definition normalize_h ::
  "store \<Rightarrow> addr \<Rightarrow> string \<Rightarrow> (store \<times> hconsole \<times> (js_error + addr)) option" where
  "normalize_h h arr key =
     do {
       xs \<leftarrow> array_at h arr;
       let (h0, acc) = store_alloc h (HMap []);
       foldl (normalize_step_h key) (Some (h0, [], Inr acc)) xs
     }"

text \<open>\<^verbatim>\<open>Object.values(obj)\<close> is a new array.\<close>

definition denormalize_h :: "store \<Rightarrow> addr \<Rightarrow> (store \<times> addr) option" where
  "denormalize_h h obj =
     do {
       m \<leftarrow> map_at h obj;
       Some (store_alloc h (HArray (denormalize m)))
     }"

text \<open>
  \<^verbatim>\<open>extractEntities\<close> on the store; the state of the loop is the store and the
  addresses of \<^verbatim>\<open>entities\<close> and \<^verbatim>\<open>normalizedItems\<close>, or the error
  thrown. The last statement of the body reads \<^verbatim>\<open>item[idKey]\<close> after the
  writes.
\<close>

definition store_item_h ::
  "string \<Rightarrow> store \<Rightarrow> addr \<Rightarrow> addr \<Rightarrow> addr \<Rightarrow> addr \<Rightarrow> (store \<times> (js_error + addr \<times> addr)) option" where
  "store_item_h idKey h item itemCopy ents nitems =
     do {
       props \<leftarrow> record_at h item;
       (case ToPropertyKey (js_get props idKey) of
          Inl e \<Rightarrow> Some (h, Inl e)
        | Inr itemName \<Rightarrow>
            do {
              h \<leftarrow> items_assign h nitems itemName itemCopy;
              Some (h, Inr (ents, nitems))
            })
     }"

definition extract_step_h ::
  "string \<Rightarrow> string \<Rightarrow> (store \<times> (js_error + addr \<times> addr)) option \<Rightarrow> addr
     \<Rightarrow> (store \<times> (js_error + addr \<times> addr)) option" where
  "extract_step_h entityKey idKey st item =
     do {
       (h, res) \<leftarrow> st;
       (case res of
          Inl e \<Rightarrow> Some (h, Inl e)
        | Inr (ents, nitems) \<Rightarrow>
            do {
              props \<leftarrow> record_at h item;
              let entity = js_get props entityKey;
              let (h, itemCopy) = store_alloc h (HRecord props);
              if truthy entity \<and> typeof entity = ''object'' \<and> js_in idKey entity
              then
                (let entityId = js_index entity idKey in
                 case ToPropertyKey entityId of
                   Inl e \<Rightarrow> Some (h, Inl e)
                 | Inr entityName \<Rightarrow>
                     do {
                       h \<leftarrow> entities_assign h ents entityName entity;
                       h \<leftarrow> record_delete h itemCopy entityKey;
                       h \<leftarrow> record_set h itemCopy (entityKey @ ''Id'') entityId;
                       store_item_h idKey h item itemCopy ents nitems
                     })
              else store_item_h idKey h item itemCopy ents nitems
            })
     }"

text \<open>The result is the pair of \<^verbatim>\<open>items\<close> and \<^verbatim>\<open>entities\<close>.\<close>

definition extractEntities_h ::
  "store \<Rightarrow> addr \<Rightarrow> string \<Rightarrow> string \<Rightarrow> (store \<times> (js_error + addr \<times> addr)) option" where
  "extractEntities_h h arr entityKey idKey =
     do {
       xs \<leftarrow> array_at h arr;
       let (h, ents) = store_alloc h (HEntities [] None);
       let (h, nitems) = store_alloc h (HItems [] None);
       (h, res) \<leftarrow> foldl (extract_step_h entityKey idKey) (Some (h, Inr (ents, nitems))) xs;
       Some (h, (case res of Inl e \<Rightarrow> Inl e | Inr (ents, nitems) \<Rightarrow> Inr (nitems, ents)))
     }"

text \<open>Reading a collection, an entity map and a result back from the store.\<close>

definition those_records :: "store \<Rightarrow> addr list \<Rightarrow> jsobj list option" where
  "those_records h xs = those (map (record_at h) xs)"

definition read_collection :: "store \<Rightarrow> addr \<Rightarrow> jsobj list option" where
  "read_collection h arr = do { xs \<leftarrow> array_at h arr; those_records h xs }"

definition read_map :: "store \<Rightarrow> addr \<Rightarrow> jsobj emap option" where
  "read_map h a =
     do {
       m \<leftarrow> map_at h a;
       rs \<leftarrow> those_records h (map snd m);
       Some (zip (map fst m) rs)
     }"

definition read_console :: "store \<Rightarrow> hconsole \<Rightarrow> console option" where
  "read_console h con =
     do { rs \<leftarrow> those_records h (map snd con); Some (zip (map fst con) rs) }"

definition read_prototype :: "store \<Rightarrow> addr option \<Rightarrow> jsobj option option" where
  "read_prototype h p =
     (case p of None \<Rightarrow> Some None | Some a \<Rightarrow> map_option Some (record_at h a))"

definition read_extracted :: "store \<Rightarrow> addr \<times> addr \<Rightarrow> extracted option" where
  "read_extracted h res =
     do {
       (m, p) \<leftarrow> items_at h (fst res);
       rs \<leftarrow> those_records h (map snd m);
       pr \<leftarrow> read_prototype h p;
       (es, ep) \<leftarrow> entities_at h (snd res);
       Some \<lparr>items = zip (map fst m) rs, items_proto = pr, entities = es, entities_proto = ep\<rparr>
     }"

text \<open>What a call gives: the error thrown, or the result read back.\<close>

definition read_outcome :: "(store \<Rightarrow> 'a \<Rightarrow> 'b option) \<Rightarrow> store \<Rightarrow> js_error + 'a \<Rightarrow> (js_error + 'b) option" where
  "read_outcome reader h res =
     (case res of Inl e \<Rightarrow> Some (Inl e) | Inr a \<Rightarrow> map_option Inr (reader h a))"

text \<open>Every object of the first store is in the second, at its address.\<close>

definition untouched :: "store \<Rightarrow> store \<Rightarrow> bool" where
  "untouched h h' \<longleftrightarrow> take (length h) h' = h"

subsection \<open>The store beside the values\<close>

text \<open>
  Two maps with the same names whose values correspond; the states of the two loops on
  the store correspond to the states of the loops on values when the store still holds
  the objects it was given and the maps of the loop hold references to records with the
  fields of the values.
\<close>

definition in_step :: "('a \<Rightarrow> 'b \<Rightarrow> bool) \<Rightarrow> 'a emap \<Rightarrow> 'b emap \<Rightarrow> bool" where
  "in_step P m vm = list_all2 (\<lambda>p q. fst p = fst q \<and> P (snd p) (snd q)) m vm"

definition normalize_sim ::
  "store \<Rightarrow> store \<times> hconsole \<times> (js_error + addr) \<Rightarrow> console \<times> (js_error + jsobj emap) \<Rightarrow> bool" where
  "normalize_sim hb st vst \<longleftrightarrow>
     (case st of (h, con, res) \<Rightarrow>
        untouched hb h
        \<and> in_step (\<lambda>b r. record_at hb b = Some r) con (fst vst)
        \<and> (case res of
             Inl e \<Rightarrow> snd vst = Inl e
           | Inr acc \<Rightarrow>
               (\<exists>m vm. snd vst = Inr vm \<and> map_at h acc = Some m
                  \<and> in_step (\<lambda>b r. record_at hb b = Some r) m vm)))"

definition copy_at :: "store \<Rightarrow> store \<Rightarrow> addr \<Rightarrow> addr \<Rightarrow> addr \<Rightarrow> jsobj \<Rightarrow> bool" where
  "copy_at hb h ents nitems b r \<longleftrightarrow>
     length hb \<le> b \<and> b \<noteq> ents \<and> b \<noteq> nitems \<and> record_at h b = Some r"

definition extract_sim ::
  "store \<Rightarrow> store \<times> (js_error + addr \<times> addr) \<Rightarrow> js_error + extracted \<Rightarrow> bool" where
  "extract_sim hb st vst \<longleftrightarrow>
     untouched hb (fst st)
     \<and> (case snd st of
          Inl e \<Rightarrow> vst = Inl e
        | Inr (ents, nitems) \<Rightarrow>
            (\<exists>s obj. vst = Inr s
               \<and> length hb \<le> ents \<and> length hb \<le> nitems \<and> ents \<noteq> nitems
               \<and> entities_at (fst st) ents = Some (entities s, entities_proto s)
               \<and> items_at (fst st) nitems = Some obj
               \<and> in_step (copy_at hb (fst st) ents nitems) (fst obj) (items s)
               \<and> rel_option (copy_at hb (fst st) ents nitems) (snd obj) (items_proto s)))"

section \<open>Properties of records\<close>

lemma map_of_replace:
  "map_of (map (\<lambda>p. if fst p = k then (k, v) else p) ps) x =
     (if x = k \<and> map_of ps k \<noteq> None then Some v else map_of ps x)"
  by (induction ps) auto

lemma map_of_insert_index:
  "map_of (insert_index ps k v) x = (if x = k then Some v else map_of ps x)"
  if "map_of ps k = None"
  using that by (induction ps k v rule: insert_index.induct) (auto split: if_splits)

lemma map_of_js_set: "map_of (js_set ps k v) = (map_of ps)(k \<mapsto> v)"
proof (cases "map_of ps k = None")
  case True
  then show ?thesis
    by (auto simp: js_set_def js_has_def map_of_insert_index fun_eq_iff map_add_def split: option.splits)
next
  case False
  then show ?thesis
    by (auto simp: js_set_def js_has_def map_of_replace fun_eq_iff)
qed

lemma keys_replace:
  "map fst (map (\<lambda>p. if fst p = k then (k, v) else p) ps) = map fst ps"
  by (induction ps) auto

lemma keys_insert_index: "set (map fst (insert_index ps k v)) = insert k (set (map fst ps))"
  by (induction ps k v rule: insert_index.induct) auto

lemma distinct_insert_index:
  "distinct (map fst ps) \<Longrightarrow> k \<notin> set (map fst ps) \<Longrightarrow> distinct (map fst (insert_index ps k v))"
proof (induction ps k v rule: insert_index.induct)
  case (1 k v)
  then show ?case by simp
next
  case (2 k' v' ps k v)
  have "k' \<notin> set (map fst (insert_index ps k v))"
    using "2.prems" unfolding keys_insert_index by auto
  with 2 show ?case by auto
qed

lemma js_has_keys: "js_has ps k \<longleftrightarrow> k \<in> set (map fst ps)"
  by (simp add: js_has_def map_of_eq_None_iff)

lemma keys_js_set: "set (map fst (js_set ps k v)) = insert k (set (map fst ps))"
proof (cases "js_has ps k")
  case True
  then have k: "k \<in> set (map fst ps)" by (simp add: js_has_keys)
  have "map fst (js_set ps k v) = map fst ps"
    using True keys_replace [of k v ps] by (simp add: js_set_def)
  with k show ?thesis by auto
next
  case False
  then show ?thesis
    using keys_insert_index [of ps k v] by (simp add: js_set_def)
qed

lemma distinct_js_set: "distinct (map fst ps) \<Longrightarrow> distinct (map fst (js_set ps k v))"
proof (cases "js_has ps k")
  case True
  assume d: "distinct (map fst ps)"
  have "map fst (js_set ps k v) = map fst ps"
    using True keys_replace [of k v ps] by (simp add: js_set_def)
  with d show ?thesis by simp
next
  case False
  assume d: "distinct (map fst ps)"
  from False have k: "k \<notin> set (map fst ps)" by (simp add: js_has_keys)
  show ?thesis
    using False d k distinct_insert_index [OF d k] by (simp add: js_set_def)
qed





lemma js_get_absent:
  "\<not> js_has item key \<Longrightarrow> js_get item key = object_member ObjectPrototype key"
  by (simp add: js_has_def js_get_def)

lemma js_get_own: "map_of item key = Some v \<Longrightarrow> js_get item key = v"
  by (simp add: js_get_def)

lemma js_set_empty: "js_set [] k v = [(k, v)]"
  by (simp add: js_set_def js_has_def)

lemma values_distinct_keys:
  "distinct (map fst m) \<Longrightarrow> set (denormalize m) = ran (map_of m)"
  by (simp add: denormalize_def ran_distinct)

lemma size_distinct_keys:
  "distinct (map fst m) \<Longrightarrow> length m = card (dom (map_of m))"
  using distinct_card [of "map fst m"] by (simp add: dom_map_of_conv_image_fst)

text \<open>A loop of property definitions builds the map in which later definitions win.\<close>

lemma foldl_js_set_map_of:
  "map_of (foldl (\<lambda>m x. js_set m (kf x) (vf x)) m0 xs) =
     map_of m0 ++ map_of (rev (map (\<lambda>x. (kf x, vf x)) xs))"
proof (induction xs arbitrary: m0)
  case Nil
  then show ?case by simp
next
  case (Cons x xs)
  show ?case
    by (auto simp: Cons.IH map_of_js_set fun_eq_iff map_add_def split: option.splits)
qed

lemma foldl_js_set_distinct:
  "distinct (map fst m0) \<Longrightarrow> distinct (map fst (foldl (\<lambda>m x. js_set m (kf x) (vf x)) m0 xs))"
  by (induction xs arbitrary: m0) (simp_all add: distinct_js_set)

lemma foldl_js_set_keys:
  "set (map fst (foldl (\<lambda>m x. js_set m (kf x) (vf x)) m0 xs)) = set (map fst m0) \<union> kf ` set xs"
  by (induction xs arbitrary: m0) (auto simp: keys_js_set simp del: set_map)

lemma foldl_js_set_last:
  assumes "\<forall>y \<in> set post. kf y \<noteq> kf x"
  shows "map_of (foldl (\<lambda>m x. js_set m (kf x) (vf x)) m0 (pre @ x # post)) (kf x) = Some (vf x)"
proof -
  have "map_of (rev (map (\<lambda>x. (kf x, vf x)) post)) (kf x) = None"
    using assms by (auto simp: map_of_eq_None_iff image_image)
  then show ?thesis
    unfolding foldl_js_set_map_of by (simp add: map_add_def)
qed

lemma foldl_js_set_entry:
  assumes "(k, v) \<in> set (foldl (\<lambda>m x. js_set m (kf x) (vf x)) [] xs)"
  shows "\<exists>x \<in> set xs. k = kf x \<and> v = vf x"
proof -
  have "distinct (map fst (foldl (\<lambda>m x. js_set m (kf x) (vf x)) [] xs))"
    by (rule foldl_js_set_distinct) simp
  with assms have "map_of (foldl (\<lambda>m x. js_set m (kf x) (vf x)) [] xs) k = Some v"
    by (simp add: map_of_eq_Some_iff)
  then have "(k, v) \<in> set (rev (map (\<lambda>x. (kf x, vf x)) xs))"
    unfolding foldl_js_set_map_of by (auto dest: map_of_SomeD)
  then show ?thesis by auto
qed

text \<open>Number literals.\<close>

lemma safe_literal:
  "- 9007199254740991 \<le> i \<Longrightarrow> i \<le> 9007199254740991 \<Longrightarrow> Rep_safe_integer (Abs_safe_integer i) = i"
  by (simp add: Abs_safe_integer_inverse)

lemma Num_eq_iff:
  "- 9007199254740991 \<le> i \<Longrightarrow> i \<le> 9007199254740991 \<Longrightarrow>
   - 9007199254740991 \<le> j \<Longrightarrow> j \<le> 9007199254740991 \<Longrightarrow> Num i = Num j \<longleftrightarrow> i = j"
  by (simp add: Num_def Abs_safe_integer_inject)

lemma Num_distinct:
  "Num i \<noteq> Undefined" "Num i \<noteq> Null" "Num i \<noteq> Bool b" "Num i \<noteq> Str s" "Num i \<noteq> Obj ps" "Num i \<noteq> Arr xs"
  "Undefined \<noteq> Num i" "Null \<noteq> Num i" "Bool b \<noteq> Num i" "Str s \<noteq> Num i" "Obj ps \<noteq> Num i" "Arr xs \<noteq> Num i"
  by (simp_all add: Num_def)

lemma ToString_Num:
  "- 9007199254740991 \<le> i \<Longrightarrow> i \<le> 9007199254740991 \<Longrightarrow> ToString (Num i) = Inr (string_of_int i)"
  by (simp add: Num_def safe_literal)

lemma truthy_Num:
  "- 9007199254740991 \<le> i \<Longrightarrow> i \<le> 9007199254740991 \<Longrightarrow> truthy (Data (Num i)) \<longleftrightarrow> i \<noteq> 0"
  by (simp add: Num_def safe_literal)

lemma typeof_Num: "typeof (Data (Num i)) = ''number''"
  by (simp add: Num_def)

lemma js_in_Num: "js_in k (Data (Num i)) = False"
  by (simp add: Num_def)

lemma js_index_Num: "js_index (Data (Num i)) k = Data Undefined"
  by (simp add: Num_def)

lemma entity_shadows_Num: "entity_shadows (Data (Num i)) = False"
  by (simp add: Num_def)

lemmas num_eval = Num_eq_iff Num_distinct ToString_Num truthy_Num typeof_Num js_in_Num js_index_Num
  entity_shadows_Num

text \<open>Unfolding the definitions on a concrete input.\<close>

lemmas js_eval = num_eval keyed_def named_def js_get_def js_has_def js_set_def js_delete_def
  js_spread_def id_keys_def id_values_def carries_all_def string_of_int_def string_of_nat.simps
  digit_def normalize_entities_def normalize_step_def denormalize_def Let_def
  is_array_index_def parse_nat_def missing_key_message_def object_member_def
  object_prototype_names_def array_prototype_names_def native_function_def

lemmas extract_eval = extractEntities_def extract_step_def js_assign_def record_shadows_def
  extracts_def item_copy_def

section \<open>What normalize builds\<close>

lemma named_Inr: "named key item \<longleftrightarrow> (\<exists>k. ToPropertyKey (js_get item key) = Inr k)"
proof (cases "ToPropertyKey (js_get item key)")
  case (Inl e)
  then show ?thesis by (cases e) (simp add: named_def)
next
  case (Inr k)
  then show ?thesis by (simp add: named_def)
qed

lemma named_projr: "named key item \<Longrightarrow> ToPropertyKey (js_get item key) = Inr (projr (ToPropertyKey (js_get item key)))"
  by (auto simp: named_Inr)

lemma unkeyed_named: "\<not> keyed key item \<Longrightarrow> named key item"
  by (auto simp: keyed_def named_def)

lemma normalize_step_error: "normalize_step key (con, Inl e) item = (con, Inl e)"
  by (simp add: normalize_step_def)

lemma normalize_step_skip:
  "\<not> keyed key item \<Longrightarrow>
     normalize_step key (con, Inr acc) item = (con @ [(missing_key_message key, item)], Inr acc)"
  by (auto simp: normalize_step_def keyed_def Let_def)

lemma normalize_step_keep:
  "keyed key item \<Longrightarrow> ToPropertyKey (js_get item key) = Inr k \<Longrightarrow>
     normalize_step key (con, Inr acc) item = (con, Inr (js_set acc k item))"
  by (auto simp: normalize_step_def keyed_def Let_def)

lemma normalize_step_throw:
  "keyed key item \<Longrightarrow> ToPropertyKey (js_get item key) = Inl e \<Longrightarrow>
     normalize_step key (con, Inr acc) item = (con, Inl e)"
  by (auto simp: normalize_step_def keyed_def Let_def)

text \<open>
  When every identifier converts to a property name, the loop is a loop of property
  definitions on the map and of diagnostics on the console.
\<close>

lemma foldl_normalize:
  assumes "list_all (named key) arr"
  shows "foldl (normalize_step key) (con, Inr acc) arr =
     (con @ map (\<lambda>item. (missing_key_message key, item)) (filter (\<lambda>item. \<not> keyed key item) arr),
      Inr (foldl (\<lambda>m item. js_set m (projr (ToPropertyKey (js_get item key))) item) acc
             (filter (keyed key) arr)))"
  using assms
proof (induction arr arbitrary: con acc)
  case Nil
  then show ?case by simp
next
  case (Cons item arr)
  from Cons.prems have n: "named key item" and rest: "list_all (named key) arr"
    by simp_all
  show ?case
  proof (cases "keyed key item")
    case True
    from normalize_step_keep [OF True named_projr [OF n]] Cons.IH [OF rest] True
    show ?thesis by simp
  next
    case False
    from normalize_step_skip [OF False] Cons.IH [OF rest] False
    show ?thesis by simp
  qed
qed

lemma normalize_entities_returns:
  assumes "list_all (named key) arr"
  shows "normalize_entities arr key =
     (map (\<lambda>item. (missing_key_message key, item)) (filter (\<lambda>item. \<not> keyed key item) arr),
      Inr (foldl (\<lambda>m item. js_set m (projr (ToPropertyKey (js_get item key))) item) []
             (filter (keyed key) arr)))"
  unfolding normalize_entities_def using foldl_normalize [OF assms, of "[]" "[]"] by simp

text \<open>The map that the loop builds, for the lemmas below.\<close>

lemma normalize_entities_map:
  assumes "list_all (named key) arr"
  obtains m where "snd (normalize_entities arr key) = Inr m"
    and "distinct (map fst m)"
    and "map_of m =
       map_of (rev (map (\<lambda>item. (projr (ToPropertyKey (js_get item key)), item)) (filter (keyed key) arr)))"
    and "fst (normalize_entities arr key) =
       map (\<lambda>item. (missing_key_message key, item)) (filter (\<lambda>item. \<not> keyed key item) arr)"
proof -
  let ?m = "foldl (\<lambda>m item. js_set m (projr (ToPropertyKey (js_get item key))) item) []
             (filter (keyed key) arr)"
  have 1: "snd (normalize_entities arr key) = Inr ?m"
    by (simp add: normalize_entities_returns [OF assms])
  have 2: "distinct (map fst ?m)"
    by (rule foldl_js_set_distinct) simp
  have 3: "map_of ?m =
       map_of (rev (map (\<lambda>item. (projr (ToPropertyKey (js_get item key)), item)) (filter (keyed key) arr)))"
    by (simp add: foldl_js_set_map_of)
  have 4: "fst (normalize_entities arr key) =
       map (\<lambda>item. (missing_key_message key, item)) (filter (\<lambda>item. \<not> keyed key item) arr)"
    by (simp add: normalize_entities_returns [OF assms])
  from 1 2 3 4 that show thesis by blast
qed

lemma keyed_entries:
  assumes "distinct (map fst m)"
    and "map_of m = map_of (rev (map (\<lambda>item. (kf item, item)) (filter P arr)))"
    and "(k, v) \<in> set m"
  shows "v \<in> set arr \<and> P v \<and> k = kf v"
proof -
  from assms(1,3) have "map_of m k = Some v"
    by (simp add: map_of_eq_Some_iff)
  then have "(k, v) \<in> set (rev (map (\<lambda>item. (kf item, item)) (filter P arr)))"
    unfolding assms(2) by (rule map_of_SomeD)
  then show ?thesis by auto
qed

lemma keyed_values:
  assumes "distinct (map fst m)"
    and "map_of m = map_of (rev (map (\<lambda>item. (kf item, item)) (filter P arr)))"
  shows "set (denormalize m) \<subseteq> {item \<in> set arr. P item}"
  using keyed_entries [OF assms] by (fastforce simp: denormalize_def)

lemma keyed_size:
  assumes "distinct (map fst m)"
    and "map_of m = map_of (rev (map (\<lambda>item. (kf item, item)) (filter P arr)))"
  shows "length m = card (kf ` set (filter P arr))"
proof -
  have "length m = card (dom (map_of m))"
    by (rule size_distinct_keys [OF assms(1)])
  also have "\<dots> = card (kf ` set (filter P arr))"
    unfolding assms(2) by (simp add: dom_map_of_conv_image_fst image_image)
  finally show ?thesis .
qed

lemma keyed_last:
  assumes "map_of m = map_of (rev (map (\<lambda>item. (kf item, item)) (filter P (pre @ b # post))))"
    and "P b"
    and "\<forall>item \<in> set post. P item \<longrightarrow> kf item \<noteq> kf b"
  shows "map_of m (kf b) = Some b"
proof -
  have none: "map_of (rev (map (\<lambda>item. (kf item, item)) (filter P post))) (kf b) = None"
    using assms(3) by (auto simp: map_of_eq_None_iff image_image)
  show ?thesis
    unfolding assms(1) using assms(2) none by (simp add: map_add_def)
qed

lemma keyed_has:
  assumes "map_of m = map_of (rev (map (\<lambda>item. (kf item, item)) (filter P arr)))"
    and "item \<in> set arr" and "P item"
  shows "js_has m (kf item)"
proof -
  have "kf item \<in> dom (map_of m)"
    unfolding assms(1) using assms(2,3) by (simp add: dom_map_of_conv_image_fst image_image)
  then show ?thesis by (auto simp: js_has_def)
qed

lemma id_keys_image:
  assumes "list_all (named key) arr"
  shows "id_keys key arr = map Inr (map (\<lambda>item. projr (ToPropertyKey (js_get item key))) arr)"
  using assms by (induction arr) (simp_all add: id_keys_def named_projr [symmetric])

lemma id_keys_card:
  assumes "list_all (named key) arr"
  shows "card (set (id_keys key arr)) = card ((\<lambda>item. projr (ToPropertyKey (js_get item key))) ` set arr)"
proof -
  have "set (id_keys key arr) = Inr ` ((\<lambda>item. projr (ToPropertyKey (js_get item key))) ` set arr)"
    unfolding id_keys_image [OF assms] by (simp add: image_image)
  then show ?thesis
    by (simp add: card_image)
qed

lemma id_keys_distinct:
  assumes "list_all (named key) arr"
  shows "distinct (id_keys key arr) \<longleftrightarrow> distinct (map (\<lambda>item. projr (ToPropertyKey (js_get item key))) arr)"
  unfolding id_keys_image [OF assms] by (simp add: distinct_map inj_on_def)

lemma named_filter: "list_all (named key) arr \<Longrightarrow> list_all (named key) (filter P arr)"
  by (simp add: list_all_iff)

lemma absent_unkeyed:
  "\<not> js_has item key \<Longrightarrow> key \<notin> set object_prototype_names \<Longrightarrow> js_get item key = Data Undefined"
  by (auto simp: js_get_absent object_member_def object_prototype_names_def)

text \<open>Records that the examples share.\<close>

lemma key_zero: "ToPropertyKey (Data (Num 0)) = Inr ''0''"
  by (simp add: js_eval)

lemma key_one: "ToPropertyKey (Data (Num 1)) = Inr ''1''"
  by (simp add: js_eval)

lemma two_users_keyed:
  "list_all (keyed ''id'')
     [[(''id'', Data (Num 1)), (''name'', Data (Str ''John''))],
      [(''id'', Data (Num 2)), (''name'', Data (Str ''Jane''))]]"
  by (simp add: js_eval)

lemma two_users_named:
  "list_all (named ''id'')
     [[(''id'', Data (Num 1)), (''name'', Data (Str ''John''))],
      [(''id'', Data (Num 2)), (''name'', Data (Str ''Jane''))]]"
  by (simp add: js_eval)

lemma two_users_keys:
  "id_keys ''id''
     [[(''id'', Data (Num 1)), (''name'', Data (Str ''John''))],
      [(''id'', Data (Num 2)), (''name'', Data (Str ''Jane''))]]
   = [Inr ''1'', Inr ''2'']"
  by (simp add: js_eval)

lemma two_users_normalized:
  "snd (normalize_entities
     [[(''id'', Data (Num 1)), (''name'', Data (Str ''John''))],
      [(''id'', Data (Num 2)), (''name'', Data (Str ''Jane''))]] ''id'')
   = Inr [(''1'', [(''id'', Data (Num 1)), (''name'', Data (Str ''John''))]),
          (''2'', [(''id'', Data (Num 2)), (''name'', Data (Str ''Jane''))])]"
  by (simp add: js_eval)

lemma mixed_ids_normalized:
  "snd (normalize_entities
     [[(''id'', Data (Num 1)), (''name'', Data (Str ''John''))],
      [(''id'', Data (Str ''1'')), (''name'', Data (Str ''Jane''))]] ''id'')
   = Inr [(''1'', [(''id'', Data (Str ''1'')), (''name'', Data (Str ''Jane''))])]"
  by (simp add: js_eval)

lemma mixed_ids_carried:
  "carries_all ''id''
     [[(''id'', Data (Num 1)), (''name'', Data (Str ''John''))],
      [(''id'', Data (Str ''1'')), (''name'', Data (Str ''Jane''))]]"
  by (simp add: js_eval)

lemma mixed_ids_values:
  "id_values ''id''
     [[(''id'', Data (Num 1)), (''name'', Data (Str ''John''))],
      [(''id'', Data (Str ''1'')), (''name'', Data (Str ''Jane''))]]
   = [Data (Num 1), Data (Str ''1'')]"
  by (simp add: js_eval)

lemma null_id_normalized:
  "normalize_entities [[(''id'', Data Null), (''name'', Data (Str ''Nobody''))]] ''id''
   = ([(missing_key_message ''id'', [(''id'', Data Null), (''name'', Data (Str ''Nobody''))])], Inr [])"
  by (simp add: normalize_entities_def normalize_step_def js_get_def Let_def)

lemma null_id_carried: "carries_all ''id'' [[(''id'', Data Null), (''name'', Data (Str ''Nobody''))]]"
  by (simp add: js_eval)

lemma null_id_values:
  "id_values ''id'' [[(''id'', Data Null), (''name'', Data (Str ''Nobody''))]] = [Data Null]"
  by (simp add: js_eval)

lemma null_id_count:
  "count_carrying ''id'' [[(''id'', Data Null), (''name'', Data (Str ''Nobody''))]] = 1"
  by (simp add: js_eval count_carrying_def)

text \<open>
  An identifier that is a record with an own property \<^verbatim>\<open>toString\<close>, as in
  \<^verbatim>\<open>{id: {toString: 1}, name: "Odd"}\<close>, has no property name.
\<close>

lemma odd_id_normalized:
  "normalize_entities
     [[(''id'', Data (Obj [(''toString'', Num 1)])), (''name'', Data (Str ''Odd''))]] ''id''
   = ([], Inl TypeError)"
  by (simp add: js_eval)

lemma odd_id_carried:
  "carries_all ''id'' [[(''id'', Data (Obj [(''toString'', Num 1)])), (''name'', Data (Str ''Odd''))]]"
  by (simp add: js_eval)

lemma odd_id_values:
  "id_values ''id'' [[(''id'', Data (Obj [(''toString'', Num 1)])), (''name'', Data (Str ''Odd''))]]
   = [Data (Obj [(''toString'', Num 1)])]"
  by (simp add: js_eval)

lemma odd_id_count:
  "count_carrying ''id''
     [[(''id'', Data (Obj [(''toString'', Num 1)])), (''name'', Data (Str ''Odd''))]] = 1"
  by (simp add: js_eval count_carrying_def)

text \<open>
  A record without a field \<^verbatim>\<open>constructor\<close> inherits one, the function
  \<^verbatim>\<open>Object\<close>, and is kept under the text of that function.
\<close>

lemma inherited_id_normalized:
  "normalize_entities [[(''name'', Data (Str ''Ghost''))]] ''constructor''
   = ([], Inr [(''function Object() { [native code] }'', [(''name'', Data (Str ''Ghost''))])])"
  by (simp add: js_eval)

lemma inherited_id_absent: "\<not> js_has [(''name'', Data (Str ''Ghost''))] ''constructor''"
  by (simp add: js_eval)

subsection \<open>The round trip\<close>

text \<open>
  Claim C1, as the code has it. For every collection in which every record has an
  identifier other than \<^verbatim>\<open>undefined\<close> and \<^verbatim>\<open>null\<close>, in which every
  identifier converts to a property name, and in which these property names are pairwise
  distinct, \<^verbatim>\<open>normalize\<close> returns a map and
  \<^verbatim>\<open>denormalize(normalize(C))\<close> holds exactly the records of the collection,
  each once: the same set of records, and as many of them.
\<close>

theorem normalize_denormalize_roundtrip:
  assumes keyed: "list_all (keyed key) arr"
    and named: "list_all (named key) arr"
    and uniq: "distinct (id_keys key arr)"
  shows "\<exists>m. snd (normalize_entities arr key) = Inr m
    \<and> set (denormalize m) = set arr
    \<and> length (denormalize m) = length arr"
proof -
  let ?kf = "\<lambda>item. projr (ToPropertyKey (js_get item key))"
  let ?kv = "map (\<lambda>item. (?kf item, item)) arr"
  from keyed have all: "filter (keyed key) arr = arr"
    by (simp add: list_all_iff)
  obtain m where r: "snd (normalize_entities arr key) = Inr m"
    and dm: "distinct (map fst m)"
    and m: "map_of m = map_of (rev ?kv)"
    using normalize_entities_map [OF named] unfolding all by blast
  have keys: "map fst ?kv = map ?kf arr"
    by (simp add: comp_def)
  have dk: "distinct (map ?kf arr)"
    using uniq id_keys_distinct [OF named] by simp
  have d: "distinct (map fst (rev ?kv))"
    using dk by (simp add: rev_map [symmetric] o_def)
  have "set (denormalize m) = ran (map_of (rev ?kv))"
    using values_distinct_keys [OF dm] m by simp
  also have "\<dots> = snd ` set (rev ?kv)"
    using d by (rule ran_distinct)
  also have "\<dots> = set arr"
    by (simp add: image_image)
  finally have s: "set (denormalize m) = set arr" .
  have "length m = card (dom (map_of (rev ?kv)))"
    using size_distinct_keys [OF dm] m by simp
  also have "\<dots> = card (set (map ?kf arr))"
    by (simp add: dom_map_of_conv_image_fst image_image)
  also have "\<dots> = length arr"
    using distinct_card [OF dk] by simp
  finally have "length (denormalize m) = length arr"
    by (simp add: denormalize_def)
  with r s show ?thesis by simp
qed

text \<open>The two users of the doc comment of \<^verbatim>\<open>normalize\<close> come back.\<close>

theorem normalize_denormalize_roundtrip_witness:
  "list_all (keyed ''id'')
     [[(''id'', Data (Num 1)), (''name'', Data (Str ''John''))],
      [(''id'', Data (Num 2)), (''name'', Data (Str ''Jane''))]]
   \<and> list_all (named ''id'')
     [[(''id'', Data (Num 1)), (''name'', Data (Str ''John''))],
      [(''id'', Data (Num 2)), (''name'', Data (Str ''Jane''))]]
   \<and> distinct (id_keys ''id''
     [[(''id'', Data (Num 1)), (''name'', Data (Str ''John''))],
      [(''id'', Data (Num 2)), (''name'', Data (Str ''Jane''))]])
   \<and> (\<exists>m. snd (normalize_entities
        [[(''id'', Data (Num 1)), (''name'', Data (Str ''John''))],
         [(''id'', Data (Num 2)), (''name'', Data (Str ''Jane''))]] ''id'') = Inr m
     \<and> set (denormalize m)
        = set [[(''id'', Data (Num 1)), (''name'', Data (Str ''John''))],
               [(''id'', Data (Num 2)), (''name'', Data (Str ''Jane''))]]
     \<and> length (denormalize m)
        = length [[(''id'', Data (Num 1)), (''name'', Data (Str ''John''))],
                  [(''id'', Data (Num 2)), (''name'', Data (Str ''Jane''))]])"
proof -
  let ?arr = "[[(''id'', Data (Num 1)), (''name'', Data (Str ''John''))],
               [(''id'', Data (Num 2)), (''name'', Data (Str ''Jane''))]]"
  have u: "distinct (id_keys ''id'' ?arr)"
    unfolding two_users_keys by simp
  from two_users_keyed two_users_named u
    normalize_denormalize_roundtrip [OF two_users_keyed two_users_named u]
  show ?thesis by (intro conjI) assumption+
qed

text \<open>
  Claim C1 as it is worded asks that every record carries the field and that the
  identifier values are distinct. The number \<^verbatim>\<open>1\<close> and the string
  \<^verbatim>\<open>"1"\<close> are distinct values with the same property name, so of
  \<^verbatim>\<open>[{id: 1, name: "John"}, {id: "1", name: "Jane"}]\<close> the round trip keeps the
  second record only; a record that carries the field with the value
  \<^verbatim>\<open>null\<close> is skipped, so \<^verbatim>\<open>[{id: null, name: "Nobody"}]\<close> comes
  back empty; and on \<^verbatim>\<open>[{id: {toString: 1}, name: "Odd"}]\<close> the computed key
  throws, so nothing comes back.
\<close>

theorem distinct_identifiers_counterexample:
  "carries_all ''id''
     [[(''id'', Data (Num 1)), (''name'', Data (Str ''John''))],
      [(''id'', Data (Str ''1'')), (''name'', Data (Str ''Jane''))]]
   \<and> distinct (id_values ''id''
     [[(''id'', Data (Num 1)), (''name'', Data (Str ''John''))],
      [(''id'', Data (Str ''1'')), (''name'', Data (Str ''Jane''))]])
   \<and> snd (normalize_entities
        [[(''id'', Data (Num 1)), (''name'', Data (Str ''John''))],
         [(''id'', Data (Str ''1'')), (''name'', Data (Str ''Jane''))]] ''id'')
     = Inr [(''1'', [(''id'', Data (Str ''1'')), (''name'', Data (Str ''Jane''))])]
   \<and> set (denormalize [(''1'', [(''id'', Data (Str ''1'')), (''name'', Data (Str ''Jane''))])])
     \<noteq> set [[(''id'', Data (Num 1)), (''name'', Data (Str ''John''))],
            [(''id'', Data (Str ''1'')), (''name'', Data (Str ''Jane''))]]
   \<and> carries_all ''id'' [[(''id'', Data Null), (''name'', Data (Str ''Nobody''))]]
   \<and> distinct (id_values ''id'' [[(''id'', Data Null), (''name'', Data (Str ''Nobody''))]])
   \<and> snd (normalize_entities [[(''id'', Data Null), (''name'', Data (Str ''Nobody''))]] ''id'') = Inr []
   \<and> set (denormalize ([] :: jsobj emap)) \<noteq> set [[(''id'', Data Null), (''name'', Data (Str ''Nobody''))]]
   \<and> carries_all ''id'' [[(''id'', Data (Obj [(''toString'', Num 1)])), (''name'', Data (Str ''Odd''))]]
   \<and> distinct (id_values ''id''
        [[(''id'', Data (Obj [(''toString'', Num 1)])), (''name'', Data (Str ''Odd''))]])
   \<and> snd (normalize_entities
        [[(''id'', Data (Obj [(''toString'', Num 1)])), (''name'', Data (Str ''Odd''))]] ''id'')
     = Inl TypeError"
  unfolding mixed_ids_normalized mixed_ids_values null_id_normalized null_id_values
    odd_id_normalized odd_id_values
  using mixed_ids_carried null_id_carried odd_id_carried
  by (simp add: denormalize_def Num_distinct)

subsection \<open>Skipped records and the size of the map\<close>

text \<open>
  Claim C2, as the code has it. For every collection whose identifiers convert to
  property names, \<^verbatim>\<open>normalize\<close> returns a map that keeps no record whose
  identifier, as \<^verbatim>\<open>item[key]\<close> reads it, is \<^verbatim>\<open>undefined\<close> or
  \<^verbatim>\<open>null\<close> among its values; these are the records that lack the identifier
  field, when the field is not named like a member of \<^verbatim>\<open>Object.prototype\<close>,
  and the records whose field holds one of the two values. The size of the map is the
  number of distinct property names that the identifiers of the other records give; it
  is the number of those records when their property names are pairwise distinct.
\<close>

theorem normalize_skips_and_size:
  assumes named: "list_all (named key) arr"
  shows "\<exists>m. snd (normalize_entities arr key) = Inr m
    \<and> (\<forall>item \<in> set arr. \<not> keyed key item \<longrightarrow> item \<notin> set (denormalize m))
    \<and> (\<forall>item \<in> set arr. \<not> js_has item key \<and> key \<notin> set object_prototype_names \<longrightarrow>
          item \<notin> set (denormalize m))
    \<and> length m = card (set (id_keys key (filter (keyed key) arr)))
    \<and> (distinct (id_keys key (filter (keyed key) arr)) \<longrightarrow>
          length m = length (filter (keyed key) arr))"
proof -
  let ?kf = "\<lambda>item. projr (ToPropertyKey (js_get item key))"
  obtain m where r: "snd (normalize_entities arr key) = Inr m"
    and dm: "distinct (map fst m)"
    and m: "map_of m = map_of (rev (map (\<lambda>item. (?kf item, item)) (filter (keyed key) arr)))"
    using normalize_entities_map [OF named] by blast
  note nf = named_filter [OF named, of "keyed key"]
  have skip: "\<not> keyed key item \<Longrightarrow> item \<notin> set (denormalize m)" for item
    using keyed_values [OF dm m] by auto
  have absent: "\<not> js_has item key \<and> key \<notin> set object_prototype_names \<Longrightarrow> item \<notin> set (denormalize m)"
    for item
    using skip [of item] absent_unkeyed [of item key] by (simp add: keyed_def)
  have size: "length m = card (set (id_keys key (filter (keyed key) arr)))"
    using keyed_size [OF dm m] id_keys_card [OF nf] by simp
  have "length m = length (filter (keyed key) arr)"
    if "distinct (id_keys key (filter (keyed key) arr))"
    using distinct_card [OF that] size by (simp add: id_keys_def)
  with r skip absent size show ?thesis by blast
qed

lemma ghost_filter:
  "filter (keyed ''id'')
     [[(''id'', Data (Num 1)), (''name'', Data (Str ''John''))], [(''name'', Data (Str ''Ghost''))],
      [(''id'', Data (Num 2)), (''name'', Data (Str ''Jane''))]]
   = [[(''id'', Data (Num 1)), (''name'', Data (Str ''John''))],
      [(''id'', Data (Num 2)), (''name'', Data (Str ''Jane''))]]"
  by (simp add: js_eval)

lemma ghost_named:
  "list_all (named ''id'')
     [[(''id'', Data (Num 1)), (''name'', Data (Str ''John''))], [(''name'', Data (Str ''Ghost''))],
      [(''id'', Data (Num 2)), (''name'', Data (Str ''Jane''))]]"
  by (simp add: js_eval)

lemma ghost_unkeyed: "\<not> keyed ''id'' [(''name'', Data (Str ''Ghost''))]"
  by (simp add: js_eval)

lemma ghost_absent:
  "\<not> js_has [(''name'', Data (Str ''Ghost''))] ''id'' \<and> ''id'' \<notin> set object_prototype_names"
  by (simp add: js_eval)

lemma ghost_normalized:
  "snd (normalize_entities
     [[(''id'', Data (Num 1)), (''name'', Data (Str ''John''))], [(''name'', Data (Str ''Ghost''))],
      [(''id'', Data (Num 2)), (''name'', Data (Str ''Jane''))]] ''id'')
   = Inr [(''1'', [(''id'', Data (Num 1)), (''name'', Data (Str ''John''))]),
          (''2'', [(''id'', Data (Num 2)), (''name'', Data (Str ''Jane''))])]"
  by (simp add: js_eval)

text \<open>A record without identifier between the two users is left out; the map has size two.\<close>

theorem normalize_skips_and_size_witness:
  "list_all (named ''id'')
     [[(''id'', Data (Num 1)), (''name'', Data (Str ''John''))], [(''name'', Data (Str ''Ghost''))],
      [(''id'', Data (Num 2)), (''name'', Data (Str ''Jane''))]]
   \<and> \<not> keyed ''id'' [(''name'', Data (Str ''Ghost''))]
   \<and> \<not> js_has [(''name'', Data (Str ''Ghost''))] ''id''
   \<and> ''id'' \<notin> set object_prototype_names
   \<and> distinct (id_keys ''id'' (filter (keyed ''id'')
        [[(''id'', Data (Num 1)), (''name'', Data (Str ''John''))], [(''name'', Data (Str ''Ghost''))],
         [(''id'', Data (Num 2)), (''name'', Data (Str ''Jane''))]]))
   \<and> (\<exists>m. snd (normalize_entities
        [[(''id'', Data (Num 1)), (''name'', Data (Str ''John''))], [(''name'', Data (Str ''Ghost''))],
         [(''id'', Data (Num 2)), (''name'', Data (Str ''Jane''))]] ''id'') = Inr m
      \<and> [(''name'', Data (Str ''Ghost''))] \<notin> set (denormalize m)
      \<and> length m = 2)"
proof -
  let ?arr = "[[(''id'', Data (Num 1)), (''name'', Data (Str ''John''))], [(''name'', Data (Str ''Ghost''))],
         [(''id'', Data (Num 2)), (''name'', Data (Str ''Jane''))]]"
  have g: "[(''name'', Data (Str ''Ghost''))] \<in> set ?arr" by simp
  have d: "distinct (id_keys ''id'' (filter (keyed ''id'') ?arr))"
    unfolding ghost_filter two_users_keys by simp
  from normalize_skips_and_size [OF ghost_named]
  obtain m where r: "snd (normalize_entities ?arr ''id'') = Inr m"
    and skip: "\<forall>item \<in> set ?arr. \<not> keyed ''id'' item \<longrightarrow> item \<notin> set (denormalize m)"
    and size: "distinct (id_keys ''id'' (filter (keyed ''id'') ?arr)) \<longrightarrow>
          length m = length (filter (keyed ''id'') ?arr)"
    by blast
  from skip g ghost_unkeyed have 1: "[(''name'', Data (Str ''Ghost''))] \<notin> set (denormalize m)"
    by blast
  from size d have "length m = length (filter (keyed ''id'') ?arr)"
    by blast
  then have 2: "length m = 2"
    unfolding ghost_filter by simp
  from ghost_named ghost_unkeyed ghost_absent d r 1 2 show ?thesis by blast
qed

lemma twin_ids_normalized:
  "snd (normalize_entities
     [[(''id'', Data (Num 1)), (''name'', Data (Str ''John''))],
      [(''id'', Data (Num 1)), (''name'', Data (Str ''Johnny''))]] ''id'')
   = Inr [(''1'', [(''id'', Data (Num 1)), (''name'', Data (Str ''Johnny''))])]"
  by (simp add: js_eval)

lemma twin_ids_carried:
  "carries_all ''id''
     [[(''id'', Data (Num 1)), (''name'', Data (Str ''John''))],
      [(''id'', Data (Num 1)), (''name'', Data (Str ''Johnny''))]]"
  by (simp add: js_eval)

lemma twin_ids_count:
  "count_carrying ''id''
     [[(''id'', Data (Num 1)), (''name'', Data (Str ''John''))],
      [(''id'', Data (Num 1)), (''name'', Data (Str ''Johnny''))]] = 2"
  by (simp add: js_eval count_carrying_def)

lemma inherited_id_count: "count_carrying ''constructor'' [[(''name'', Data (Str ''Ghost''))]] = 0"
  by (simp add: js_eval count_carrying_def)

text \<open>
  Claim C2 as it is worded equates the size of the map with the number of records that
  had the identifier field, and has every record without the field left out. Two
  records with the identifier \<^verbatim>\<open>1\<close> both have the field and give a map of size
  one; a record whose field holds the value \<^verbatim>\<open>null\<close> has the field and gives
  the empty map; with the identifier field \<^verbatim>\<open>constructor\<close> a record without
  that field is kept, under the text of the function that it inherits, so the map has
  size one where no record had the field; and a record whose identifier has no property
  name gives no map.
\<close>

theorem map_size_counterexample:
  "carries_all ''id''
     [[(''id'', Data (Num 1)), (''name'', Data (Str ''John''))],
      [(''id'', Data (Num 1)), (''name'', Data (Str ''Johnny''))]]
   \<and> count_carrying ''id''
     [[(''id'', Data (Num 1)), (''name'', Data (Str ''John''))],
      [(''id'', Data (Num 1)), (''name'', Data (Str ''Johnny''))]] = 2
   \<and> snd (normalize_entities
     [[(''id'', Data (Num 1)), (''name'', Data (Str ''John''))],
      [(''id'', Data (Num 1)), (''name'', Data (Str ''Johnny''))]] ''id'')
     = Inr [(''1'', [(''id'', Data (Num 1)), (''name'', Data (Str ''Johnny''))])]
   \<and> count_carrying ''id'' [[(''id'', Data Null), (''name'', Data (Str ''Nobody''))]] = 1
   \<and> snd (normalize_entities [[(''id'', Data Null), (''name'', Data (Str ''Nobody''))]] ''id'') = Inr []
   \<and> \<not> js_has [(''name'', Data (Str ''Ghost''))] ''constructor''
   \<and> count_carrying ''constructor'' [[(''name'', Data (Str ''Ghost''))]] = 0
   \<and> normalize_entities [[(''name'', Data (Str ''Ghost''))]] ''constructor''
     = ([], Inr [(''function Object() { [native code] }'', [(''name'', Data (Str ''Ghost''))])])
   \<and> count_carrying ''id''
       [[(''id'', Data (Obj [(''toString'', Num 1)])), (''name'', Data (Str ''Odd''))]] = 1
   \<and> snd (normalize_entities
       [[(''id'', Data (Obj [(''toString'', Num 1)])), (''name'', Data (Str ''Odd''))]] ''id'')
     = Inl TypeError"
  unfolding twin_ids_normalized twin_ids_count null_id_normalized null_id_count
    inherited_id_normalized inherited_id_count odd_id_normalized odd_id_count
  using twin_ids_carried inherited_id_absent by simp

subsection \<open>Collisions\<close>

text \<open>
  Claim C3, as the code has it. For every collection whose identifiers convert to
  property names and in which two records \<open>a\<close> and, later, \<open>b\<close> carry the same
  identifier (neither \<^verbatim>\<open>undefined\<close> nor \<^verbatim>\<open>null\<close>) with different
  field values, and in which no record after \<open>b\<close> has an identifier with the same
  property name, \<^verbatim>\<open>normalize\<close> raises no error: it returns a map, which sends
  that property name to \<open>b\<close>, and \<open>a\<close> is not among the values of the map.
\<close>

theorem normalize_later_record_wins:
  assumes same: "js_get a key = js_get b key"
    and differ: "a \<noteq> b"
    and b: "keyed key b"
    and k: "ToPropertyKey (js_get b key) = Inr k"
    and named: "list_all (named key) (pre @ a # mid @ b # post)"
    and post: "\<forall>item \<in> set post. keyed key item \<longrightarrow> ToPropertyKey (js_get item key) \<noteq> Inr k"
  shows "\<exists>m. snd (normalize_entities (pre @ a # mid @ b # post) key) = Inr m
    \<and> map_of m k = Some b
    \<and> a \<notin> set (denormalize m)"
proof -
  let ?arr = "pre @ a # mid @ b # post"
  let ?kf = "\<lambda>item. projr (ToPropertyKey (js_get item key))"
  obtain m where r: "snd (normalize_entities ?arr key) = Inr m"
    and dm: "distinct (map fst m)"
    and m: "map_of m = map_of (rev (map (\<lambda>item. (?kf item, item)) (filter (keyed key) ?arr)))"
    using normalize_entities_map [OF named] by blast
  have kb: "?kf b = k"
    using k by simp
  have "\<forall>item \<in> set post. keyed key item \<longrightarrow> ?kf item \<noteq> ?kf b"
  proof (intro ballI impI)
    fix item
    assume i: "item \<in> set post" and ki: "keyed key item"
    from named i have "named key item"
      by (simp add: list_all_iff)
    from named_projr [OF this] post i ki kb show "?kf item \<noteq> ?kf b"
      by auto
  qed
  with m b have "map_of m (?kf b) = Some b"
    using keyed_last [of m ?kf "keyed key" "pre @ a # mid" b post] by simp
  then have last: "map_of m k = Some b"
    by (simp add: kb)
  have "a \<notin> set (denormalize m)"
  proof
    assume "a \<in> set (denormalize m)"
    then obtain k' where k': "(k', a) \<in> set m"
      by (auto simp: denormalize_def)
    from keyed_entries [OF dm m k'] same kb have "k' = k"
      by simp
    with k' dm have "map_of m k = Some a"
      by (simp add: map_of_eq_Some_iff)
    with last differ show False by simp
  qed
  with r last show ?thesis by blast
qed

lemma four_users_named:
  "list_all (named ''id'')
     ([] @ [(''id'', Data (Num 1)), (''name'', Data (Str ''John''))]
         # [[(''id'', Data (Num 2)), (''name'', Data (Str ''Jim''))]]
         @ [(''id'', Data (Num 1)), (''name'', Data (Str ''Johnny''))]
         # [[(''id'', Data (Num 3)), (''name'', Data (Str ''Jane''))]])"
  by (simp add: js_eval)

lemma jane_other_key:
  "\<forall>item \<in> set [[(''id'', Data (Num 3)), (''name'', Data (Str ''Jane''))]].
     keyed ''id'' item \<longrightarrow> ToPropertyKey (js_get item ''id'') \<noteq> Inr ''1''"
  by (simp add: js_eval)

text \<open>Of John, Jim, Johnny and Jane, where Johnny has the identifier of John, the map keeps Johnny.\<close>

theorem normalize_later_record_wins_witness:
  "\<exists>m. snd (normalize_entities
      [[(''id'', Data (Num 1)), (''name'', Data (Str ''John''))],
       [(''id'', Data (Num 2)), (''name'', Data (Str ''Jim''))],
       [(''id'', Data (Num 1)), (''name'', Data (Str ''Johnny''))],
       [(''id'', Data (Num 3)), (''name'', Data (Str ''Jane''))]] ''id'') = Inr m
   \<and> map_of m ''1'' = Some [(''id'', Data (Num 1)), (''name'', Data (Str ''Johnny''))]
   \<and> [(''id'', Data (Num 1)), (''name'', Data (Str ''John''))] \<notin> set (denormalize m)"
proof -
  let ?a = "[(''id'', Data (Num 1)), (''name'', Data (Str ''John''))]"
  let ?b = "[(''id'', Data (Num 1)), (''name'', Data (Str ''Johnny''))]"
  have same: "js_get ?a ''id'' = js_get ?b ''id''" by (simp add: js_eval)
  have differ: "?a \<noteq> ?b" by simp
  have b: "keyed ''id'' ?b" by (simp add: js_eval)
  have k: "ToPropertyKey (js_get ?b ''id'') = Inr ''1''" by (simp add: js_eval)
  from normalize_later_record_wins [OF same differ b k four_users_named jane_other_key]
  show ?thesis by simp
qed

lemma three_ids_normalized:
  "snd (normalize_entities
      [[(''id'', Data (Num 1)), (''name'', Data (Str ''John''))],
       [(''id'', Data (Num 1)), (''name'', Data (Str ''Johnny''))],
       [(''id'', Data (Str ''1'')), (''name'', Data (Str ''Jane''))]] ''id'')
   = Inr [(''1'', [(''id'', Data (Str ''1'')), (''name'', Data (Str ''Jane''))])]"
  by (simp add: js_eval)

lemma three_ids_values:
  "id_values ''id''
      [[(''id'', Data (Num 1)), (''name'', Data (Str ''John''))],
       [(''id'', Data (Num 1)), (''name'', Data (Str ''Johnny''))],
       [(''id'', Data (Str ''1'')), (''name'', Data (Str ''Jane''))]]
   = [Data (Num 1), Data (Num 1), Data (Str ''1'')]"
  by (simp add: js_eval)

lemma null_twins_normalized:
  "snd (normalize_entities
      [[(''id'', Data Null), (''name'', Data (Str ''John''))],
       [(''id'', Data Null), (''name'', Data (Str ''Johnny''))]] ''id'') = Inr []"
  by (simp add: normalize_entities_def normalize_step_def js_get_def Let_def)

lemma null_twins_values:
  "id_values ''id''
      [[(''id'', Data Null), (''name'', Data (Str ''John''))],
       [(''id'', Data Null), (''name'', Data (Str ''Johnny''))]]
   = [Data Null, Data Null]"
  by (simp add: js_eval)

lemma odd_twins_normalized:
  "snd (normalize_entities
      [[(''id'', Data (Obj [(''toString'', Num 1)])), (''name'', Data (Str ''John''))],
       [(''id'', Data (Obj [(''toString'', Num 1)])), (''name'', Data (Str ''Johnny''))]] ''id'')
   = Inl TypeError"
  by (simp add: js_eval)

lemma odd_twins_values:
  "id_values ''id''
      [[(''id'', Data (Obj [(''toString'', Num 1)])), (''name'', Data (Str ''John''))],
       [(''id'', Data (Obj [(''toString'', Num 1)])), (''name'', Data (Str ''Johnny''))]]
   = [Data (Obj [(''toString'', Num 1)]), Data (Obj [(''toString'', Num 1)])]"
  by (simp add: js_eval)

text \<open>
  Claim C3 as it is worded speaks of two records with the same identifier value, and
  of no error. In
  \<^verbatim>\<open>[{id: 1, name: "John"}, {id: 1, name: "Johnny"}, {id: "1", name: "Jane"}]\<close>
  exactly two records carry the identifier \<^verbatim>\<open>1\<close>, and the map sends it to the
  third record, whose identifier is another value with the same property name. Two
  records with the identifier \<^verbatim>\<open>null\<close> are both skipped. Two records with the
  identifier \<^verbatim>\<open>{toString: 1}\<close> make the computed key throw.
\<close>

theorem later_record_counterexample:
  "id_values ''id''
      [[(''id'', Data (Num 1)), (''name'', Data (Str ''John''))],
       [(''id'', Data (Num 1)), (''name'', Data (Str ''Johnny''))],
       [(''id'', Data (Str ''1'')), (''name'', Data (Str ''Jane''))]]
   = [Data (Num 1), Data (Num 1), Data (Str ''1'')]
   \<and> ToPropertyKey (Data (Num 1)) = Inr ''1''
   \<and> snd (normalize_entities
      [[(''id'', Data (Num 1)), (''name'', Data (Str ''John''))],
       [(''id'', Data (Num 1)), (''name'', Data (Str ''Johnny''))],
       [(''id'', Data (Str ''1'')), (''name'', Data (Str ''Jane''))]] ''id'')
     = Inr [(''1'', [(''id'', Data (Str ''1'')), (''name'', Data (Str ''Jane''))])]
   \<and> map_of [(''1'', [(''id'', Data (Str ''1'')), (''name'', Data (Str ''Jane''))])] ''1''
     \<noteq> Some [(''id'', Data (Num 1)), (''name'', Data (Str ''Johnny''))]
   \<and> id_values ''id''
      [[(''id'', Data Null), (''name'', Data (Str ''John''))],
       [(''id'', Data Null), (''name'', Data (Str ''Johnny''))]]
   = [Data Null, Data Null]
   \<and> snd (normalize_entities
      [[(''id'', Data Null), (''name'', Data (Str ''John''))],
       [(''id'', Data Null), (''name'', Data (Str ''Johnny''))]] ''id'') = Inr []
   \<and> id_values ''id''
      [[(''id'', Data (Obj [(''toString'', Num 1)])), (''name'', Data (Str ''John''))],
       [(''id'', Data (Obj [(''toString'', Num 1)])), (''name'', Data (Str ''Johnny''))]]
   = [Data (Obj [(''toString'', Num 1)]), Data (Obj [(''toString'', Num 1)])]
   \<and> snd (normalize_entities
      [[(''id'', Data (Obj [(''toString'', Num 1)])), (''name'', Data (Str ''John''))],
       [(''id'', Data (Obj [(''toString'', Num 1)])), (''name'', Data (Str ''Johnny''))]] ''id'')
   = Inl TypeError"
  unfolding three_ids_normalized three_ids_values key_one null_twins_normalized null_twins_values
    odd_twins_normalized odd_twins_values
  by (simp add: Num_distinct)

subsection \<open>The null identifier\<close>

text \<open>
  Claim C10, as the code has it. The reducer reads the identifier as
  \<^verbatim>\<open>item[key]\<close>. For a record for which this is \<^verbatim>\<open>null\<close> or
  \<^verbatim>\<open>undefined\<close> it takes the branch that writes the diagnostic and returns the
  map as it is; a record that lacks the field is such a record when the field is not
  named like a member of \<^verbatim>\<open>Object.prototype\<close>. For a record whose identifier is
  \<^verbatim>\<open>0\<close> or the empty string it takes the other branch and defines the property
  \<^verbatim>\<open>"0"\<close>, respectively \<^verbatim>\<open>""\<close>. In a collection whose identifiers
  convert to property names, \<^verbatim>\<open>normalize\<close> returns a map; a record of the first
  kind is not among its values and the console has the diagnostic for it; for a record
  of the second kind the map has the property and the console has no diagnostic.
\<close>

theorem normalize_null_like_missing:
  assumes item: "item \<in> set arr"
    and named: "list_all (named key) arr"
  shows "\<exists>m. snd (normalize_entities arr key) = Inr m
    \<and> (\<not> js_has item key \<and> key \<notin> set object_prototype_names \<longrightarrow> js_get item key = Data Undefined)
    \<and> (js_get item key = Data Null \<or> js_get item key = Data Undefined \<longrightarrow>
            item \<notin> set (denormalize m)
            \<and> (missing_key_message key, item) \<in> set (fst (normalize_entities arr key))
            \<and> normalize_step key (con, Inr acc) item
                = (con @ [(missing_key_message key, item)], Inr acc))
    \<and> (js_get item key = Data (Num 0) \<longrightarrow>
            js_has m ''0''
            \<and> (missing_key_message key, item) \<notin> set (fst (normalize_entities arr key))
            \<and> normalize_step key (con, Inr acc) item = (con, Inr (js_set acc ''0'' item)))
    \<and> (js_get item key = Data (Str []) \<longrightarrow>
            js_has m []
            \<and> (missing_key_message key, item) \<notin> set (fst (normalize_entities arr key))
            \<and> normalize_step key (con, Inr acc) item = (con, Inr (js_set acc [] item)))"
proof -
  let ?kf = "\<lambda>item. projr (ToPropertyKey (js_get item key))"
  obtain m where r: "snd (normalize_entities arr key) = Inr m"
    and dm: "distinct (map fst m)"
    and m: "map_of m = map_of (rev (map (\<lambda>item. (?kf item, item)) (filter (keyed key) arr)))"
    and c: "fst (normalize_entities arr key) =
       map (\<lambda>item. (missing_key_message key, item)) (filter (\<lambda>item. \<not> keyed key item) arr)"
    using normalize_entities_map [OF named] by blast
  have absent: "\<not> js_has item key \<and> key \<notin> set object_prototype_names \<longrightarrow> js_get item key = Data Undefined"
    using absent_unkeyed [of item key] by simp
  have skipped: "item \<notin> set (denormalize m)
            \<and> (missing_key_message key, item) \<in> set (fst (normalize_entities arr key))
            \<and> normalize_step key (con, Inr acc) item
                = (con @ [(missing_key_message key, item)], Inr acc)"
    if "js_get item key = Data Null \<or> js_get item key = Data Undefined"
  proof -
    from that have n: "\<not> keyed key item"
      by (auto simp: keyed_def)
    have "item \<notin> set (denormalize m)"
      using keyed_values [OF dm m] n by auto
    moreover have "(missing_key_message key, item) \<in> set (fst (normalize_entities arr key))"
      unfolding c using item n by simp
    ultimately show ?thesis
      using normalize_step_skip [OF n] by simp
  qed
  have kept: "js_has m k
            \<and> (missing_key_message key, item) \<notin> set (fst (normalize_entities arr key))
            \<and> normalize_step key (con, Inr acc) item = (con, Inr (js_set acc k item))"
    if v: "js_get item key = Data v" and vk: "ToString v = Inr k" and vu: "v \<noteq> Undefined" "v \<noteq> Null"
    for v k
  proof -
    from v vu have ki: "keyed key item"
      by (simp add: keyed_def)
    from v vk have tk: "ToPropertyKey (js_get item key) = Inr k"
      by simp
    then have "?kf item = k"
      by simp
    with keyed_has [OF m item ki] have "js_has m k"
      by simp
    moreover have "(missing_key_message key, item) \<notin> set (fst (normalize_entities arr key))"
      unfolding c using ki by auto
    ultimately show ?thesis
      using normalize_step_keep [OF ki tk] by simp
  qed
  have zero: "ToString (Num 0) = Inr ''0''"
    using key_zero by simp
  from r absent skipped kept [of "Num 0" "''0''"] kept [of "Str []" "[]"] zero
  show ?thesis
    by (simp add: Num_distinct)
qed

lemma mixed_bag_named:
  "list_all (named ''id'')
     [[(''id'', Data Null), (''name'', Data (Str ''Nobody''))], [(''name'', Data (Str ''Ghost''))],
      [(''id'', Data (Num 0)), (''name'', Data (Str ''Zero''))],
      [(''id'', Data (Str [])), (''name'', Data (Str ''Empty''))]]"
  by (simp add: js_eval)

lemma mixed_bag_get:
  "js_get [(''id'', Data Null), (''name'', Data (Str ''Nobody''))] ''id'' = Data Null"
  "js_get [(''name'', Data (Str ''Ghost''))] ''id'' = Data Undefined"
  "js_get [(''id'', Data (Num 0)), (''name'', Data (Str ''Zero''))] ''id'' = Data (Num 0)"
  "js_get [(''id'', Data (Str [])), (''name'', Data (Str ''Empty''))] ''id'' = Data (Str [])"
  by (simp_all add: js_eval)

text \<open>
  Of \<^verbatim>\<open>[{id: null, name: "Nobody"}, {name: "Ghost"}, {id: 0, name: "Zero"}, {id: "", name: "Empty"}]\<close>
  the first two records are left out with a diagnostic each, and the map has the
  properties \<^verbatim>\<open>"0"\<close> and \<^verbatim>\<open>""\<close>.
\<close>

theorem normalize_null_like_missing_witness:
  "\<exists>m. snd (normalize_entities
      [[(''id'', Data Null), (''name'', Data (Str ''Nobody''))], [(''name'', Data (Str ''Ghost''))],
       [(''id'', Data (Num 0)), (''name'', Data (Str ''Zero''))],
       [(''id'', Data (Str [])), (''name'', Data (Str ''Empty''))]] ''id'') = Inr m
   \<and> [(''id'', Data Null), (''name'', Data (Str ''Nobody''))] \<notin> set (denormalize m)
   \<and> [(''name'', Data (Str ''Ghost''))] \<notin> set (denormalize m)
   \<and> (missing_key_message ''id'', [(''id'', Data Null), (''name'', Data (Str ''Nobody''))])
       \<in> set (fst (normalize_entities
      [[(''id'', Data Null), (''name'', Data (Str ''Nobody''))], [(''name'', Data (Str ''Ghost''))],
       [(''id'', Data (Num 0)), (''name'', Data (Str ''Zero''))],
       [(''id'', Data (Str [])), (''name'', Data (Str ''Empty''))]] ''id''))
   \<and> (missing_key_message ''id'', [(''name'', Data (Str ''Ghost''))])
       \<in> set (fst (normalize_entities
      [[(''id'', Data Null), (''name'', Data (Str ''Nobody''))], [(''name'', Data (Str ''Ghost''))],
       [(''id'', Data (Num 0)), (''name'', Data (Str ''Zero''))],
       [(''id'', Data (Str [])), (''name'', Data (Str ''Empty''))]] ''id''))
   \<and> js_has m ''0'' \<and> js_has m []"
proof -
  let ?n = "[(''id'', Data Null), (''name'', Data (Str ''Nobody''))]"
  let ?g = "[(''name'', Data (Str ''Ghost''))]"
  let ?z = "[(''id'', Data (Num 0)), (''name'', Data (Str ''Zero''))]"
  let ?e = "[(''id'', Data (Str [])), (''name'', Data (Str ''Empty''))]"
  let ?arr = "[?n, ?g, ?z, ?e]"
  have mem: "?n \<in> set ?arr" "?g \<in> set ?arr" "?z \<in> set ?arr" "?e \<in> set ?arr"
    by simp_all
  obtain m where r: "snd (normalize_entities ?arr ''id'') = Inr m"
    using normalize_null_like_missing [OF mem(1) mixed_bag_named] by blast
  from normalize_null_like_missing [OF mem(1) mixed_bag_named, of "[]" "[]"] r mixed_bag_get(1)
  have 1: "?n \<notin> set (denormalize m)
      \<and> (missing_key_message ''id'', ?n) \<in> set (fst (normalize_entities ?arr ''id''))"
    by auto
  from normalize_null_like_missing [OF mem(2) mixed_bag_named, of "[]" "[]"] r mixed_bag_get(2)
  have 2: "?g \<notin> set (denormalize m)
      \<and> (missing_key_message ''id'', ?g) \<in> set (fst (normalize_entities ?arr ''id''))"
    by auto
  from normalize_null_like_missing [OF mem(3) mixed_bag_named, of "[]" "[]"] r mixed_bag_get(3)
  have 3: "js_has m ''0''"
    by auto
  from normalize_null_like_missing [OF mem(4) mixed_bag_named, of "[]" "[]"] r mixed_bag_get(4)
  have 4: "js_has m []"
    by auto
  from r 1 2 3 4 show ?thesis by blast
qed

lemma null_constructor_normalized:
  "normalize_entities [[(''constructor'', Data Null), (''name'', Data (Str ''Nobody''))]] ''constructor''
   = ([(missing_key_message ''constructor'',
        [(''constructor'', Data Null), (''name'', Data (Str ''Nobody''))])], Inr [])"
  by (simp add: normalize_entities_def normalize_step_def js_get_def Let_def)

lemma zero_after_odd_normalized:
  "normalize_entities
     [[(''id'', Data (Obj [(''toString'', Num 1)])), (''name'', Data (Str ''Odd''))],
      [(''id'', Data Null), (''name'', Data (Str ''Nobody''))],
      [(''id'', Data (Num 0)), (''name'', Data (Str ''Zero''))]] ''id''
   = ([], Inl TypeError)"
  by (simp add: js_eval)

text \<open>
  Claim C10 as it is worded has the record that misses the field skipped like the one
  whose field holds \<^verbatim>\<open>null\<close>, whatever the field, and the records with the
  identifiers \<^verbatim>\<open>null\<close> and \<^verbatim>\<open>0\<close> treated so in every collection. With
  the identifier field \<^verbatim>\<open>constructor\<close>, the record
  \<^verbatim>\<open>{constructor: null, name: "Nobody"}\<close> is skipped with the diagnostic, and
  the record \<^verbatim>\<open>{name: "Ghost"}\<close>, which misses the field, is kept without a
  diagnostic. After a record whose identifier has no property name, no diagnostic is
  written for the record with the identifier \<^verbatim>\<open>null\<close> and no map holds the one
  with the identifier \<^verbatim>\<open>0\<close>.
\<close>

theorem null_like_missing_counterexample:
  "normalize_entities [[(''constructor'', Data Null), (''name'', Data (Str ''Nobody''))]] ''constructor''
   = ([(missing_key_message ''constructor'',
        [(''constructor'', Data Null), (''name'', Data (Str ''Nobody''))])], Inr [])
   \<and> \<not> js_has [(''name'', Data (Str ''Ghost''))] ''constructor''
   \<and> normalize_entities [[(''name'', Data (Str ''Ghost''))]] ''constructor''
     = ([], Inr [(''function Object() { [native code] }'', [(''name'', Data (Str ''Ghost''))])])
   \<and> normalize_entities
     [[(''id'', Data (Obj [(''toString'', Num 1)])), (''name'', Data (Str ''Odd''))],
      [(''id'', Data Null), (''name'', Data (Str ''Nobody''))],
      [(''id'', Data (Num 0)), (''name'', Data (Str ''Zero''))]] ''id''
   = ([], Inl TypeError)"
  unfolding null_constructor_normalized inherited_id_normalized zero_after_odd_normalized
  using inherited_id_absent by simp

section \<open>Assignments to a local object\<close>



lemma js_assign_plain:
  "k \<noteq> ''__proto__'' \<Longrightarrow> js_assign sh obj k v = (js_set (fst obj) k v, snd obj)"
  by (simp add: js_assign_def)

lemma map_of_js_assign:
  "x \<noteq> ''__proto__'' \<Longrightarrow>
     map_of (fst (js_assign sh obj k v)) x = (if x = k then Some v else map_of (fst obj) x)"
  by (auto simp: js_assign_def map_of_js_set)



lemma keys_js_assign:
  "set (map fst (fst (js_assign sh obj k v))) - {''__proto__''}
     = insert k (set (map fst (fst obj))) - {''__proto__''}"
  by (auto simp: js_assign_def keys_js_set simp del: set_map)

text \<open>A loop of assignments, at the names other than \<^verbatim>\<open>__proto__\<close>.\<close>

lemma foldl_js_assign_map_of:
  "x \<noteq> ''__proto__'' \<Longrightarrow>
     map_of (fst (foldl (\<lambda>obj y. js_assign sh obj (kf y) (vf y)) obj xs)) x =
       (map_of (fst obj) ++ map_of (rev (map (\<lambda>y. (kf y, vf y)) xs))) x"
proof (induction xs arbitrary: obj)
  case Nil
  then show ?case by simp
next
  case (Cons y xs)
  show ?case
    using Cons.prems
    by (auto simp: Cons.IH [OF Cons.prems] map_of_js_assign map_add_def split: option.splits)
qed



lemma foldl_js_assign_keys:
  "set (map fst (fst (foldl (\<lambda>obj y. js_assign sh obj (kf y) (vf y)) obj xs))) - {''__proto__''}
     = (set (map fst (fst obj)) \<union> kf ` set xs) - {''__proto__''}"
proof (induction xs arbitrary: obj)
  case Nil
  then show ?case by simp
next
  case (Cons y xs)
  from Cons.IH [of "js_assign sh obj (kf y) (vf y)"] keys_js_assign [of sh obj "kf y" "vf y"]
  show ?case by auto
qed

lemma foldl_js_assign_last:
  assumes "kf x \<noteq> ''__proto__''"
    and "\<forall>y \<in> set post. kf y \<noteq> kf x"
  shows "map_of (fst (foldl (\<lambda>obj y. js_assign sh obj (kf y) (vf y)) obj (pre @ x # post))) (kf x)
     = Some (vf x)"
proof -
  have "map_of (rev (map (\<lambda>y. (kf y, vf y)) post)) (kf x) = None"
    using assms(2) by (auto simp: map_of_eq_None_iff image_image)
  then show ?thesis
    unfolding foldl_js_assign_map_of [OF assms(1)] by (simp add: map_add_def)
qed


text \<open>Where no name is \<^verbatim>\<open>__proto__\<close>, the loop is a loop of property definitions.\<close>

lemma foldl_js_assign_plain:
  "\<forall>y \<in> set xs. kf y \<noteq> ''__proto__'' \<Longrightarrow>
     foldl (\<lambda>obj y. js_assign sh obj (kf y) (vf y)) obj xs
       = (foldl (\<lambda>m y. js_set m (kf y) (vf y)) (fst obj) xs, snd obj)"
  by (induction xs arbitrary: obj) (simp_all add: js_assign_plain)

section \<open>What extractEntities builds\<close>

lemma convertible_item:
  "convertible ek ik item \<Longrightarrow>
     ToPropertyKey (js_get item ik) = Inr (projr (ToPropertyKey (js_get item ik)))"
  using named_projr [of ik item] by (simp add: convertible_def named_def)

lemma convertible_entity:
  assumes "convertible ek ik item" and "extracts ek ik item"
  shows "ToPropertyKey (js_index (js_get item ek) ik)
     = Inr (projr (ToPropertyKey (js_index (js_get item ek) ik)))"
proof (cases "ToPropertyKey (js_index (js_get item ek) ik)")
  case (Inl e)
  with assms show ?thesis by (cases e) (simp add: convertible_def)
next
  case (Inr k)
  then show ?thesis by simp
qed

lemma convertible_named: "list_all (convertible ek ik) arr \<Longrightarrow> list_all (named ik) arr"
  by (simp add: list_all_iff convertible_def named_def)

lemma item_copy_unchanged: "\<not> extracts ek ik item \<Longrightarrow> item_copy ek ik item = item"
  by (simp add: item_copy_def)

lemma extract_step_plain:
  assumes "\<not> extracts ek ik item" and "ToPropertyKey (js_get item ik) = Inr k"
  shows "extract_step ek ik (Inr s) item =
     Inr (s\<lparr>items := fst (js_assign record_shadows (items s, items_proto s) k item),
            items_proto := snd (js_assign record_shadows (items s, items_proto s) k item)\<rparr>)"
  using assms by (auto simp: extract_step_def extracts_def Let_def)

lemma extract_step_nested:
  assumes "extracts ek ik item"
    and "ToPropertyKey (js_index (js_get item ek) ik) = Inr ke"
    and "ToPropertyKey (js_get item ik) = Inr k"
  shows "extract_step ek ik (Inr s) item =
     Inr \<lparr>items = fst (js_assign record_shadows (items s, items_proto s) k (item_copy ek ik item)),
          items_proto = snd (js_assign record_shadows (items s, items_proto s) k (item_copy ek ik item)),
          entities = fst (js_assign entity_shadows (entities s, entities_proto s) ke (js_get item ek)),
          entities_proto = snd (js_assign entity_shadows (entities s, entities_proto s) ke (js_get item ek))\<rparr>"
  using assms by (auto simp: extract_step_def extracts_def item_copy_def Let_def)

text \<open>The two loops of assignments that the loop of \<^verbatim>\<open>extractEntities\<close> runs.\<close>

lemma foldl_extract:
  assumes "list_all (convertible ek ik) arr"
  shows "foldl (extract_step ek ik)
       (Inr \<lparr>items = fst its, items_proto = snd its, entities = fst ents, entities_proto = snd ents\<rparr>) arr =
     Inr \<lparr>items = fst (foldl (\<lambda>obj item. js_assign record_shadows obj
                   (projr (ToPropertyKey (js_get item ik))) (item_copy ek ik item)) its arr),
          items_proto = snd (foldl (\<lambda>obj item. js_assign record_shadows obj
                   (projr (ToPropertyKey (js_get item ik))) (item_copy ek ik item)) its arr),
          entities = fst (foldl (\<lambda>obj item. js_assign entity_shadows obj
                   (projr (ToPropertyKey (js_index (js_get item ek) ik))) (js_get item ek)) ents
                   (filter (extracts ek ik) arr)),
          entities_proto = snd (foldl (\<lambda>obj item. js_assign entity_shadows obj
                   (projr (ToPropertyKey (js_index (js_get item ek) ik))) (js_get item ek)) ents
                   (filter (extracts ek ik) arr))\<rparr>"
  using assms
proof (induction arr arbitrary: its ents)
  case Nil
  then show ?case by simp
next
  case (Cons item arr)
  from Cons.prems have c: "convertible ek ik item" and rest: "list_all (convertible ek ik) arr"
    by simp_all
  let ?k = "projr (ToPropertyKey (js_get item ik))"
  let ?ke = "projr (ToPropertyKey (js_index (js_get item ek) ik))"
  show ?case
  proof (cases "extracts ek ik item")
    case True
    let ?its = "js_assign record_shadows its ?k (item_copy ek ik item)"
    let ?ents = "js_assign entity_shadows ents ?ke (js_get item ek)"
    from extract_step_nested [OF True convertible_entity [OF c True] convertible_item [OF c]]
    have "extract_step ek ik
        (Inr \<lparr>items = fst its, items_proto = snd its, entities = fst ents, entities_proto = snd ents\<rparr>) item
      = Inr \<lparr>items = fst ?its, items_proto = snd ?its, entities = fst ?ents, entities_proto = snd ?ents\<rparr>"
      by simp
    with Cons.IH [OF rest, of ?its ?ents] True show ?thesis by simp
  next
    case False
    let ?its = "js_assign record_shadows its ?k (item_copy ek ik item)"
    from extract_step_plain [OF False convertible_item [OF c]] item_copy_unchanged [OF False]
    have "extract_step ek ik
        (Inr \<lparr>items = fst its, items_proto = snd its, entities = fst ents, entities_proto = snd ents\<rparr>) item
      = Inr \<lparr>items = fst ?its, items_proto = snd ?its, entities = fst ents, entities_proto = snd ents\<rparr>"
      by simp
    with Cons.IH [OF rest, of ?its ents] False show ?thesis by simp
  qed
qed

lemma extractEntities_returns:
  assumes "list_all (convertible ek ik) arr"
  obtains r where "extractEntities arr ek ik = Inr r"
    and "items r = fst (foldl (\<lambda>obj item. js_assign record_shadows obj
                   (projr (ToPropertyKey (js_get item ik))) (item_copy ek ik item)) ([], None) arr)"
    and "entities r = fst (foldl (\<lambda>obj item. js_assign entity_shadows obj
                   (projr (ToPropertyKey (js_index (js_get item ek) ik))) (js_get item ek)) ([], None)
                   (filter (extracts ek ik) arr))"
    and "entities_proto r = snd (foldl (\<lambda>obj item. js_assign entity_shadows obj
                   (projr (ToPropertyKey (js_index (js_get item ek) ik))) (js_get item ek)) ([], None)
                   (filter (extracts ek ik) arr))"
  using foldl_extract [OF assms, of "([], None)" "([], None)"] that
  unfolding extractEntities_def by simp

lemma absent_not_extracted:
  "\<not> js_has item ek \<Longrightarrow> ek \<noteq> ''__proto__'' \<Longrightarrow> \<not> extracts ek ik item"
  by (auto simp: extracts_def js_get_absent object_member_def)


lemma key_undefined:
  "\<not> js_has item ik \<Longrightarrow> ik \<notin> set object_prototype_names \<Longrightarrow>
     ToPropertyKey (js_get item ik) = Inr ''undefined''"
  by (simp add: absent_unkeyed)


lemma odd_post_extracted:
  "extractEntities [[(''id'', Data (Obj [(''toString'', Num 1)])), (''title'', Data (Str ''P1''))]]
     ''author'' ''id'' = Inl TypeError"
  by (simp add: extract_eval js_eval)

lemma odd_post_no_author:
  "\<not> js_has [(''id'', Data (Obj [(''toString'', Num 1)])), (''title'', Data (Str ''P1''))] ''author''"
  by (simp add: js_eval)

subsection \<open>Records without a nested entity\<close>

text \<open>
  Claim C4, as the code has it. Take a collection for which the computed keys of
  \<^verbatim>\<open>extractEntities\<close> convert to property names, and in it an input record
  whose nested field is absent (and is not named \<^verbatim>\<open>__proto__\<close>), or holds a
  value for which the guard of the loop fails (\<^verbatim>\<open>undefined\<close>,
  \<^verbatim>\<open>null\<close>, a primitive, or a record or array without the identifier field),
  whose identifier gives a property name other than \<^verbatim>\<open>__proto__\<close>, which no
  later record of the collection gives. Then the items map of the result holds that
  record unchanged under that name (no \<^verbatim>\<open><nestedFieldName>Id\<close> field added);
  the record adds no entry to the nested entities map: the entities are those of the
  collection without it, and the step of the loop leaves them as they are.
\<close>

theorem extract_passes_record_through:
  assumes nested: "(\<not> js_has item ek \<and> ek \<noteq> ''__proto__'') \<or> \<not> extracts ek ik item"
    and k: "ToPropertyKey (js_get item ik) = Inr k"
    and proto: "k \<noteq> ''__proto__''"
    and post: "\<forall>later \<in> set post. ToPropertyKey (js_get later ik) \<noteq> Inr k"
    and conv: "list_all (convertible ek ik) (pre @ item # post)"
  shows "\<exists>r r' s'. extractEntities (pre @ item # post) ek ik = Inr r
    \<and> map_of (items r) k = Some item
    \<and> extractEntities (pre @ post) ek ik = Inr r'
    \<and> entities r = entities r' \<and> entities_proto r = entities_proto r'
    \<and> extract_step ek ik (Inr s) item = Inr s'
    \<and> items s' = js_set (items s) k item
    \<and> entities s' = entities s \<and> entities_proto s' = entities_proto s"
proof -
  let ?kf = "\<lambda>item. projr (ToPropertyKey (js_get item ik))"
  from nested have n: "\<not> extracts ek ik item"
    using absent_not_extracted by blast
  from conv have conv': "list_all (convertible ek ik) (pre @ post)"
    by simp
  obtain r where r: "extractEntities (pre @ item # post) ek ik = Inr r"
    and ri: "items r = fst (foldl (\<lambda>obj item. js_assign record_shadows obj
                   (?kf item) (item_copy ek ik item)) ([], None) (pre @ item # post))"
    and re: "entities r = fst (foldl (\<lambda>obj item. js_assign entity_shadows obj
                   (projr (ToPropertyKey (js_index (js_get item ek) ik))) (js_get item ek)) ([], None)
                   (filter (extracts ek ik) (pre @ item # post)))"
    and rp: "entities_proto r = snd (foldl (\<lambda>obj item. js_assign entity_shadows obj
                   (projr (ToPropertyKey (js_index (js_get item ek) ik))) (js_get item ek)) ([], None)
                   (filter (extracts ek ik) (pre @ item # post)))"
    using extractEntities_returns [OF conv] by blast
  obtain r' where r': "extractEntities (pre @ post) ek ik = Inr r'"
    and re': "entities r' = fst (foldl (\<lambda>obj item. js_assign entity_shadows obj
                   (projr (ToPropertyKey (js_index (js_get item ek) ik))) (js_get item ek)) ([], None)
                   (filter (extracts ek ik) (pre @ post)))"
    and rp': "entities_proto r' = snd (foldl (\<lambda>obj item. js_assign entity_shadows obj
                   (projr (ToPropertyKey (js_index (js_get item ek) ik))) (js_get item ek)) ([], None)
                   (filter (extracts ek ik) (pre @ post)))"
    using extractEntities_returns [OF conv'] by blast
  have kk: "?kf item = k"
    using k by simp
  have later: "\<forall>later \<in> set post. ?kf later \<noteq> ?kf item"
  proof
    fix later
    assume l: "later \<in> set post"
    with conv have "convertible ek ik later"
      by (simp add: list_all_iff)
    from convertible_item [OF this] post l kk show "?kf later \<noteq> ?kf item"
      by auto
  qed
  have "map_of (items r) (?kf item) = Some (item_copy ek ik item)"
    unfolding ri using proto kk later by (intro foldl_js_assign_last) simp_all
  then have 1: "map_of (items r) k = Some item"
    by (simp add: kk item_copy_unchanged [OF n])
  have 2: "entities r = entities r'" "entities_proto r = entities_proto r'"
    using n by (simp_all add: re re' rp rp')
  from extract_step_plain [OF n k, of s] proto
  have 3: "\<exists>s'. extract_step ek ik (Inr s) item = Inr s'
    \<and> items s' = js_set (items s) k item
    \<and> entities s' = entities s \<and> entities_proto s' = entities_proto s"
    by (simp add: js_assign_plain)
  from r r' 1 2 3 show ?thesis by blast
qed

lemma bare_post_no_author: "\<not> js_has [(''id'', Data (Num 1)), (''title'', Data (Str ''P1''))] ''author''"
  by (simp add: js_eval)

lemma bare_post_key:
  "ToPropertyKey (js_get [(''id'', Data (Num 1)), (''title'', Data (Str ''P1''))] ''id'') = Inr ''1''"
  by (simp add: js_eval)

lemma bare_post_later:
  "\<forall>later \<in> set [[(''id'', Data (Num 2)), (''title'', Data (Str ''P2'')),
        (''author'', Data (Obj [(''id'', Num 10), (''name'', Str ''John'')]))]].
     ToPropertyKey (js_get later ''id'') \<noteq> Inr ''1''"
  by (simp add: js_eval)

lemma bare_post_convertible:
  "list_all (convertible ''author'' ''id'')
     ([] @ [(''id'', Data (Num 1)), (''title'', Data (Str ''P1''))]
        # [[(''id'', Data (Num 2)), (''title'', Data (Str ''P2'')),
            (''author'', Data (Obj [(''id'', Num 10), (''name'', Str ''John'')]))]])"
  by (simp add: convertible_def extracts_def js_eval)

lemma second_post_extracted:
  "extractEntities
     [[(''id'', Data (Num 2)), (''title'', Data (Str ''P2'')),
       (''author'', Data (Obj [(''id'', Num 10), (''name'', Str ''John'')]))]] ''author'' ''id''
   = Inr \<lparr>items = [(''2'', [(''id'', Data (Num 2)), (''title'', Data (Str ''P2'')), (''authorId'', Data (Num 10))])],
          items_proto = None,
          entities = [(''10'', Data (Obj [(''id'', Num 10), (''name'', Str ''John'')]))],
          entities_proto = None\<rparr>"
  by (simp add: extract_eval js_eval)

text \<open>A post without author in front of a post with one.\<close>

theorem extract_passes_record_through_witness:
  "\<not> js_has [(''id'', Data (Num 1)), (''title'', Data (Str ''P1''))] ''author''
   \<and> (\<exists>r. extractEntities
        [[(''id'', Data (Num 1)), (''title'', Data (Str ''P1''))],
         [(''id'', Data (Num 2)), (''title'', Data (Str ''P2'')),
          (''author'', Data (Obj [(''id'', Num 10), (''name'', Str ''John'')]))]]
        ''author'' ''id'' = Inr r
     \<and> map_of (items r) ''1'' = Some [(''id'', Data (Num 1)), (''title'', Data (Str ''P1''))]
     \<and> entities r = [(''10'', Data (Obj [(''id'', Num 10), (''name'', Str ''John'')]))])"
proof -
  have n: "(\<not> js_has [(''id'', Data (Num 1)), (''title'', Data (Str ''P1''))] ''author''
        \<and> ''author'' \<noteq> ''__proto__'')
      \<or> \<not> extracts ''author'' ''id'' [(''id'', Data (Num 1)), (''title'', Data (Str ''P1''))]"
    using bare_post_no_author by simp
  have p: "''1'' \<noteq> ''__proto__''"
    by simp
  from extract_passes_record_through [OF n bare_post_key p bare_post_later bare_post_convertible,
      where s = "\<lparr>items = [], items_proto = None, entities = [], entities_proto = None\<rparr>"]
  obtain r r' where r: "extractEntities
        [[(''id'', Data (Num 1)), (''title'', Data (Str ''P1''))],
         [(''id'', Data (Num 2)), (''title'', Data (Str ''P2'')),
          (''author'', Data (Obj [(''id'', Num 10), (''name'', Str ''John'')]))]]
        ''author'' ''id'' = Inr r"
    and m: "map_of (items r) ''1'' = Some [(''id'', Data (Num 1)), (''title'', Data (Str ''P1''))]"
    and r': "extractEntities ([] @
         [[(''id'', Data (Num 2)), (''title'', Data (Str ''P2'')),
          (''author'', Data (Obj [(''id'', Num 10), (''name'', Str ''John'')]))]])
        ''author'' ''id'' = Inr r'"
    and e: "entities r = entities r'"
    by auto
  from r' have "entities r' = [(''10'', Data (Obj [(''id'', Num 10), (''name'', Str ''John'')]))]"
    unfolding append_Nil second_post_extracted by auto
  with e have "entities r = [(''10'', Data (Obj [(''id'', Num 10), (''name'', Str ''John'')]))]"
    by simp
  with bare_post_no_author r m show ?thesis by blast
qed

lemma twin_posts_extracted:
  "extractEntities
     [[(''id'', Data (Num 1)), (''title'', Data (Str ''P1''))],
      [(''id'', Data (Num 1)), (''title'', Data (Str ''P2''))]]
     ''author'' ''id''
   = Inr \<lparr>items = [(''1'', [(''id'', Data (Num 1)), (''title'', Data (Str ''P2''))])],
          items_proto = None, entities = [], entities_proto = None\<rparr>"
  by (simp add: extract_eval js_eval)

lemma tags_extracted:
  "extractEntities [[(''id'', Data (Num 1)), (''tags'', Data (Arr [Str ''a'', Str ''b'']))]] ''tags'' ''length''
   = Inr \<lparr>items = [(''undefined'', [(''id'', Data (Num 1)), (''tagsId'', Data (Num 2))])],
          items_proto = None,
          entities = [(''2'', Data (Arr [Str ''a'', Str ''b'']))], entities_proto = None\<rparr>"
  by (simp add: extract_eval js_eval)

lemma tags_value:
  "js_get [(''id'', Data (Num 1)), (''tags'', Data (Arr [Str ''a'', Str ''b'']))] ''tags''
   = Data (Arr [Str ''a'', Str ''b''])"
  by (simp add: js_eval)

lemma proto_post_extracted:
  "extractEntities [[(''id'', Data (Str ''__proto__'')), (''title'', Data (Str ''P1''))]] ''author'' ''id''
   = Inr \<lparr>items = [],
          items_proto = Some [(''id'', Data (Str ''__proto__'')), (''title'', Data (Str ''P1''))],
          entities = [], entities_proto = None\<rparr>"
  by (simp add: extract_eval js_eval)

lemma proto_post_no_author:
  "\<not> js_has [(''id'', Data (Str ''__proto__'')), (''title'', Data (Str ''P1''))] ''author''"
  by (simp add: js_eval)

lemma inherited_entity_extracted:
  "extractEntities [[(''id'', Data (Num 1)), (''title'', Data (Str ''P1''))]] ''__proto__'' ''toString''
   = Inr \<lparr>items = [(''function toString() { [native code] }'',
                    [(''id'', Data (Num 1)), (''title'', Data (Str ''P1'')),
                     (''__proto__Id'', ObjectMember ''toString'')])],
          items_proto = None,
          entities = [(''function toString() { [native code] }'', ObjectPrototype)],
          entities_proto = None\<rparr>"
  by (simp add: extract_eval js_eval)

lemma bare_post_no_proto: "\<not> js_has [(''id'', Data (Num 1)), (''title'', Data (Str ''P1''))] ''__proto__''"
  by (simp add: js_eval)

text \<open>
  Claim C4 as it is worded says that the items map of the result contains every record
  whose nested field is absent or holds a value that is not a record. Of two posts
  without author and with the identifier \<^verbatim>\<open>1\<close> the second overwrites the
  first, which is not in the result. The guard takes an array for an object: with
  \<^verbatim>\<open>"length"\<close> as the identifier field, the array under
  \<^verbatim>\<open>tags\<close> is extracted and replaced by the field \<^verbatim>\<open>tagsId\<close>. A
  post without author and with the identifier \<^verbatim>\<open>"__proto__"\<close> becomes the
  prototype of the items map and no entry of it. With the nested field
  \<^verbatim>\<open>__proto__\<close> and the identifier field \<^verbatim>\<open>toString\<close>, a post without
  such a field inherits \<^verbatim>\<open>Object.prototype\<close> as its nested value, which is
  extracted. And a post without author whose identifier has no property name makes the
  computed key throw.
\<close>

theorem passes_through_counterexample:
  "\<not> js_has [(''id'', Data (Num 1)), (''title'', Data (Str ''P1''))] ''author''
   \<and> extractEntities
        [[(''id'', Data (Num 1)), (''title'', Data (Str ''P1''))],
         [(''id'', Data (Num 1)), (''title'', Data (Str ''P2''))]] ''author'' ''id''
     = Inr \<lparr>items = [(''1'', [(''id'', Data (Num 1)), (''title'', Data (Str ''P2''))])],
            items_proto = None, entities = [], entities_proto = None\<rparr>
   \<and> [(''id'', Data (Num 1)), (''title'', Data (Str ''P1''))]
       \<notin> set (denormalize [(''1'', [(''id'', Data (Num 1)), (''title'', Data (Str ''P2''))])])
   \<and> js_get [(''id'', Data (Num 1)), (''tags'', Data (Arr [Str ''a'', Str ''b'']))] ''tags''
       = Data (Arr [Str ''a'', Str ''b''])
   \<and> extractEntities [[(''id'', Data (Num 1)), (''tags'', Data (Arr [Str ''a'', Str ''b'']))]] ''tags'' ''length''
     = Inr \<lparr>items = [(''undefined'', [(''id'', Data (Num 1)), (''tagsId'', Data (Num 2))])],
            items_proto = None,
            entities = [(''2'', Data (Arr [Str ''a'', Str ''b'']))], entities_proto = None\<rparr>
   \<and> \<not> js_has [(''id'', Data (Str ''__proto__'')), (''title'', Data (Str ''P1''))] ''author''
   \<and> extractEntities [[(''id'', Data (Str ''__proto__'')), (''title'', Data (Str ''P1''))]] ''author'' ''id''
     = Inr \<lparr>items = [],
            items_proto = Some [(''id'', Data (Str ''__proto__'')), (''title'', Data (Str ''P1''))],
            entities = [], entities_proto = None\<rparr>
   \<and> \<not> js_has [(''id'', Data (Num 1)), (''title'', Data (Str ''P1''))] ''__proto__''
   \<and> extractEntities [[(''id'', Data (Num 1)), (''title'', Data (Str ''P1''))]] ''__proto__'' ''toString''
     = Inr \<lparr>items = [(''function toString() { [native code] }'',
                      [(''id'', Data (Num 1)), (''title'', Data (Str ''P1'')),
                       (''__proto__Id'', ObjectMember ''toString'')])],
            items_proto = None,
            entities = [(''function toString() { [native code] }'', ObjectPrototype)],
            entities_proto = None\<rparr>
   \<and> \<not> js_has [(''id'', Data (Obj [(''toString'', Num 1)])), (''title'', Data (Str ''P1''))] ''author''
   \<and> extractEntities [[(''id'', Data (Obj [(''toString'', Num 1)])), (''title'', Data (Str ''P1''))]]
        ''author'' ''id'' = Inl TypeError"
  unfolding twin_posts_extracted tags_extracted tags_value proto_post_extracted
    inherited_entity_extracted odd_post_extracted
  using bare_post_no_author proto_post_no_author bare_post_no_proto odd_post_no_author
  by (simp add: denormalize_def)

subsection \<open>Records with a nested entity\<close>













subsection \<open>Records without identifier\<close>

text \<open>
  Claim C9, as the code has it. Take a collection for which the computed keys of
  \<^verbatim>\<open>extractEntities\<close> convert to property names, and in it an input record that
  lacks the identifier field, where the field is not named like a member of
  \<^verbatim>\<open>Object.prototype\<close>. The step of \<^verbatim>\<open>extractEntities\<close> stores its copy
  in the items map under the property name \<^verbatim>\<open>"undefined"\<close>: the result has that
  property, and holds the copy there unless a later record gives the same name.
  \<^verbatim>\<open>normalize\<close> on the same collection returns a map without the record.
\<close>

theorem extract_keeps_record_without_identifier:
  assumes lacks: "\<not> js_has item ik"
    and plain: "ik \<notin> set object_prototype_names"
    and conv: "list_all (convertible ek ik) (pre @ item # post)"
  shows "\<exists>r s' m. extractEntities (pre @ item # post) ek ik = Inr r
    \<and> js_has (items r) ''undefined''
    \<and> ((\<forall>later \<in> set post. ToPropertyKey (js_get later ik) \<noteq> Inr ''undefined'') \<longrightarrow>
         map_of (items r) ''undefined'' = Some (item_copy ek ik item))
    \<and> extract_step ek ik (Inr s) item = Inr s'
    \<and> items s' = js_set (items s) ''undefined'' (item_copy ek ik item)
    \<and> snd (normalize_entities (pre @ item # post) ik) = Inr m
    \<and> item \<notin> set (denormalize m)"
proof -
  let ?kf = "\<lambda>item. projr (ToPropertyKey (js_get item ik))"
  let ?arr = "pre @ item # post"
  note k = key_undefined [OF lacks plain]
  have kk: "?kf item = ''undefined''"
    using k by simp
  have u: "''undefined'' \<noteq> ''__proto__''"
    by simp
  obtain r where r: "extractEntities ?arr ek ik = Inr r"
    and ri: "items r = fst (foldl (\<lambda>obj item. js_assign record_shadows obj
                   (?kf item) (item_copy ek ik item)) ([], None) ?arr)"
    using extractEntities_returns [OF conv] by blast
  have "''undefined'' \<in> set (map fst (items r)) - {''__proto__''}"
    unfolding ri foldl_js_assign_keys using kk by force
  then have 1: "js_has (items r) ''undefined''"
    by (simp add: js_has_keys)
  have 2: "map_of (items r) ''undefined'' = Some (item_copy ek ik item)"
    if l: "\<forall>later \<in> set post. ToPropertyKey (js_get later ik) \<noteq> Inr ''undefined''"
  proof -
    have "\<forall>later \<in> set post. ?kf later \<noteq> ?kf item"
    proof
      fix later
      assume "later \<in> set post"
      with conv l convertible_item [of ek ik later] kk show "?kf later \<noteq> ?kf item"
        by (auto simp: list_all_iff)
    qed
    then have "map_of (items r) (?kf item) = Some (item_copy ek ik item)"
      unfolding ri using kk by (intro foldl_js_assign_last) simp_all
    then show ?thesis
      by (simp add: kk)
  qed
  from conv have c: "convertible ek ik item"
    by simp
  have 3: "\<exists>s'. extract_step ek ik (Inr s) item = Inr s'
      \<and> items s' = js_set (items s) ''undefined'' (item_copy ek ik item)"
  proof (cases "extracts ek ik item")
    case True
    from extract_step_nested [OF True convertible_entity [OF c True] k, of s]
    show ?thesis by (simp add: js_assign_plain)
  next
    case False
    from extract_step_plain [OF False k, of s] item_copy_unchanged [OF False]
    show ?thesis by (simp add: js_assign_plain)
  qed
  obtain m where m: "snd (normalize_entities ?arr ik) = Inr m"
    and dm: "distinct (map fst m)"
    and mm: "map_of m = map_of (rev (map (\<lambda>item. (?kf item, item)) (filter (keyed ik) ?arr)))"
    using normalize_entities_map [OF convertible_named [OF conv]] by blast
  have "\<not> keyed ik item"
    using absent_unkeyed [OF lacks plain] by (simp add: keyed_def)
  then have 4: "item \<notin> set (denormalize m)"
    using keyed_values [OF dm mm] by auto
  from r 1 2 3 m 4 show ?thesis by blast
qed

lemma untitled_no_id:
  "\<not> js_has [(''title'', Data (Str ''Untitled''))] ''id''"
  by (simp add: js_eval)

lemma id_plain: "''id'' \<notin> set object_prototype_names"
  by (simp add: js_eval)

lemma untitled_convertible:
  "list_all (convertible ''author'' ''id'')
     ([[(''id'', Data (Num 1)), (''title'', Data (Str ''P1''))]] @ [(''title'', Data (Str ''Untitled''))] # [])"
  by (simp add: convertible_def extracts_def js_eval)

lemma untitled_copy:
  "item_copy ''author'' ''id'' [(''title'', Data (Str ''Untitled''))] = [(''title'', Data (Str ''Untitled''))]"
  by (simp add: item_copy_def extracts_def js_eval)

text \<open>A post without identifier after a post with one.\<close>

theorem extract_keeps_record_without_identifier_witness:
  "\<not> js_has [(''title'', Data (Str ''Untitled''))] ''id''
   \<and> ''id'' \<notin> set object_prototype_names
   \<and> (\<exists>r m. extractEntities
        [[(''id'', Data (Num 1)), (''title'', Data (Str ''P1''))], [(''title'', Data (Str ''Untitled''))]]
        ''author'' ''id'' = Inr r
      \<and> js_has (items r) ''undefined''
      \<and> map_of (items r) ''undefined'' = Some [(''title'', Data (Str ''Untitled''))]
      \<and> snd (normalize_entities
        [[(''id'', Data (Num 1)), (''title'', Data (Str ''P1''))], [(''title'', Data (Str ''Untitled''))]]
        ''id'') = Inr m
      \<and> [(''title'', Data (Str ''Untitled''))] \<notin> set (denormalize m))"
proof -
  from extract_keeps_record_without_identifier [OF untitled_no_id id_plain untitled_convertible,
      where s = "\<lparr>items = [], items_proto = None, entities = [], entities_proto = None\<rparr>"]
  obtain r m where r: "extractEntities
        ([[(''id'', Data (Num 1)), (''title'', Data (Str ''P1''))]] @ [(''title'', Data (Str ''Untitled''))] # [])
        ''author'' ''id'' = Inr r"
    and h: "js_has (items r) ''undefined''"
    and l: "(\<forall>later \<in> set []. ToPropertyKey (js_get later ''id'') \<noteq> Inr ''undefined'') \<longrightarrow>
         map_of (items r) ''undefined'' = Some (item_copy ''author'' ''id'' [(''title'', Data (Str ''Untitled''))])"
    and m: "snd (normalize_entities
        ([[(''id'', Data (Num 1)), (''title'', Data (Str ''P1''))]] @ [(''title'', Data (Str ''Untitled''))] # [])
        ''id'') = Inr m"
    and n: "[(''title'', Data (Str ''Untitled''))] \<notin> set (denormalize m)"
    by blast
  from l have c: "map_of (items r) ''undefined'' = Some [(''title'', Data (Str ''Untitled''))]"
    unfolding untitled_copy by simp
  from r m have "extractEntities
        [[(''id'', Data (Num 1)), (''title'', Data (Str ''P1''))], [(''title'', Data (Str ''Untitled''))]]
        ''author'' ''id'' = Inr r"
    and "snd (normalize_entities
        [[(''id'', Data (Num 1)), (''title'', Data (Str ''P1''))], [(''title'', Data (Str ''Untitled''))]]
        ''id'') = Inr m"
    by simp_all
  with untitled_no_id id_plain h c n show ?thesis by blast
qed

lemma untitled_inherited_extracted:
  "extractEntities [[(''title'', Data (Str ''Untitled''))]] ''author'' ''toString''
   = Inr \<lparr>items = [(''function toString() { [native code] }'', [(''title'', Data (Str ''Untitled''))])],
          items_proto = None, entities = [], entities_proto = None\<rparr>"
  by (simp add: extract_eval js_eval)

lemma untitled_no_toString: "\<not> js_has [(''title'', Data (Str ''Untitled''))] ''toString''"
  by (simp add: js_eval)

lemma untitled_after_odd_extracted:
  "extractEntities
     [[(''id'', Data (Obj [(''toString'', Num 1)])), (''title'', Data (Str ''P1''))],
      [(''title'', Data (Str ''Untitled''))]] ''author'' ''id''
   = Inl TypeError"
  by (simp add: extract_eval js_eval)

text \<open>
  Claim C9 as it is worded has every record that lacks the identifier field inserted
  under the name \<^verbatim>\<open>"undefined"\<close>. With the identifier field
  \<^verbatim>\<open>toString\<close>, a record that lacks the field is inserted under the text of the
  function that it inherits, and the items map has no property
  \<^verbatim>\<open>"undefined"\<close>. After a record whose identifier has no property name, the
  record that lacks the field is not inserted: the computed key throws before.
\<close>

theorem without_identifier_counterexample:
  "\<not> js_has [(''title'', Data (Str ''Untitled''))] ''toString''
   \<and> extractEntities [[(''title'', Data (Str ''Untitled''))]] ''author'' ''toString''
     = Inr \<lparr>items = [(''function toString() { [native code] }'', [(''title'', Data (Str ''Untitled''))])],
            items_proto = None, entities = [], entities_proto = None\<rparr>
   \<and> \<not> js_has [(''function toString() { [native code] }'', [(''title'', Data (Str ''Untitled''))])]
         ''undefined''
   \<and> \<not> js_has [(''title'', Data (Str ''Untitled''))] ''id''
   \<and> extractEntities
     [[(''id'', Data (Obj [(''toString'', Num 1)])), (''title'', Data (Str ''P1''))],
      [(''title'', Data (Str ''Untitled''))]] ''author'' ''id''
   = Inl TypeError"
  unfolding untitled_inherited_extracted untitled_after_odd_extracted
  using untitled_no_toString untitled_no_id by (simp add: js_has_def)

section \<open>The stateful wrapper\<close>











lemma string_one: "ToString (Num 1) = Inr ''1''"
  using key_one by simp

text \<open>
  Claim C7. From the empty map, \<^verbatim>\<open>addEntity\<close> of any record whose
  \<^verbatim>\<open>id\<close> is \<^verbatim>\<open>1\<close> followed by \<^verbatim>\<open>removeEntity(1)\<close> raises
  no error and gives a map on which \<^verbatim>\<open>hasEntity(1)\<close> is false and
  \<^verbatim>\<open>count\<close> is \<^verbatim>\<open>0\<close>: the empty map again.
\<close>

theorem add_then_remove:
  assumes "js_get entity ''id'' = Data (Num 1)"
  shows "\<exists>added removed. addEntity [] entity = Inr added
    \<and> removeEntity added (Num 1) = Inr removed
    \<and> hasEntity removed (Num 1) = Inr False
    \<and> count removed = 0
    \<and> removed = []"
proof -
  have a: "addEntity [] entity = Inr [(''1'', entity)]"
    using assms by (simp add: addEntity_def string_one js_set_empty)
  have r: "removeEntity [(''1'', entity)] (Num 1) = Inr []"
    by (simp add: removeEntity_def string_one js_delete_def)
  have h: "hasEntity [] (Num 1) = Inr False"
    by (simp add: hasEntity_def string_one js_has_def object_prototype_names_def)
  have c: "count [] = 0"
    by (simp add: count_def entityIds_def)
  from a r h c show ?thesis by simp
qed

lemma john_id: "js_get [(''id'', Data (Num 1)), (''name'', Data (Str ''John''))] ''id'' = Data (Num 1)"
  by (simp add: js_eval)

text \<open>Adding and removing John.\<close>

theorem add_then_remove_witness:
  "js_get [(''id'', Data (Num 1)), (''name'', Data (Str ''John''))] ''id'' = Data (Num 1)
   \<and> (\<exists>added removed.
         addEntity [] [(''id'', Data (Num 1)), (''name'', Data (Str ''John''))] = Inr added
       \<and> removeEntity added (Num 1) = Inr removed
       \<and> hasEntity removed (Num 1) = Inr False
       \<and> count removed = 0)"
proof -
  from add_then_remove [OF john_id]
  obtain added removed
    where "addEntity [] [(''id'', Data (Num 1)), (''name'', Data (Str ''John''))] = Inr added"
      and "removeEntity added (Num 1) = Inr removed"
      and "hasEntity removed (Num 1) = Inr False"
      and "count removed = 0"
    by (elim exE conjE) (rule that; assumption)
  with john_id show ?thesis by blast
qed

section \<open>What the utilities touch\<close>

lemma untouched_refl: "untouched h h"
  by (simp add: untouched_def)

lemma untouched_length: "untouched h h' \<Longrightarrow> length h \<le> length h'"
proof -
  assume "untouched h h'"
  then have "length (take (length h) h') = length h"
    by (simp add: untouched_def)
  then show ?thesis by simp
qed

lemma untouched_nth: "untouched h h' \<Longrightarrow> a < length h \<Longrightarrow> h' ! a = h ! a"
proof -
  assume u: "untouched h h'" and a: "a < length h"
  from a have "take (length h) h' ! a = h' ! a"
    by simp
  with u show ?thesis
    by (simp add: untouched_def)
qed

lemma untouched_update: "length hb \<le> a \<Longrightarrow> untouched hb h \<Longrightarrow> untouched hb (h[a := obj])"
  by (simp add: untouched_def)

lemma untouched_append: "untouched hb h \<Longrightarrow> untouched hb (h @ [obj])"
  using untouched_length [of hb h] by (simp add: untouched_def)

lemma store_read_untouched:
  "untouched h h' \<Longrightarrow> a < length h \<Longrightarrow> store_read h' a = store_read h a"
  using untouched_length [of h h'] untouched_nth [of h h' a] by (simp add: store_read_def)

lemma store_read_update:
  "store_read (h[a := obj]) b = (if b = a \<and> a < length h then Some obj else store_read h b)"
  by (simp add: store_read_def)

lemma store_read_append:
  "store_read (h @ [obj]) b = (if b = length h then Some obj else store_read h b)"
  by (simp add: store_read_def nth_append)

lemma store_read_Some_less: "store_read h a = Some obj \<Longrightarrow> a < length h"
  by (simp add: store_read_def split: if_splits)

lemma record_at_less: "record_at h a = Some ps \<Longrightarrow> a < length h"
  by (auto simp: record_at_def split: option.splits dest: store_read_Some_less)

lemma map_at_less: "map_at h a = Some m \<Longrightarrow> a < length h"
  by (auto simp: map_at_def split: option.splits dest: store_read_Some_less)

lemma record_at_untouched:
  "untouched h h' \<Longrightarrow> record_at h a = Some ps \<Longrightarrow> record_at h' a = Some ps"
  using store_read_untouched [of h h' a]
  by (auto simp: record_at_def store_read_def split: option.splits hobj.splits if_splits)

lemma map_at_untouched:
  "untouched h h' \<Longrightarrow> map_at h a = Some m \<Longrightarrow> map_at h' a = Some m"
  using store_read_untouched [of h h' a]
  by (auto simp: map_at_def store_read_def split: option.splits hobj.splits if_splits)

lemma array_at_untouched:
  "untouched h h' \<Longrightarrow> array_at h a = Some xs \<Longrightarrow> array_at h' a = Some xs"
  using store_read_untouched [of h h' a]
  by (auto simp: array_at_def store_read_def split: option.splits hobj.splits if_splits)

lemma record_at_alloc:
  "record_at h a = Some ps \<Longrightarrow> record_at (h @ [obj]) a = Some ps"
  by (auto simp: record_at_def store_read_def nth_append split: if_splits)

lemma map_at_alloc_new: "map_at (h @ [HMap m]) (length h) = Some m"
  by (simp add: map_at_def store_read_def)

lemma items_at_less: "items_at h a = Some obj \<Longrightarrow> a < length h"
  by (auto simp: items_at_def split: option.splits dest: store_read_Some_less)

lemma entities_at_less: "entities_at h a = Some obj \<Longrightarrow> a < length h"
  by (auto simp: entities_at_def split: option.splits dest: store_read_Some_less)

lemma array_at_alloc_new: "array_at (h @ [HArray xs]) (length h) = Some xs"
  by (simp add: array_at_def store_read_def)

lemma record_at_update_other:
  "b \<noteq> a \<Longrightarrow> record_at (h[a := obj]) b = record_at h b"
  by (simp add: record_at_def store_read_update)

lemma record_at_append_old:
  "b < length h \<Longrightarrow> record_at (h @ [obj]) b = record_at h b"
  by (simp add: record_at_def store_read_append)

lemma map_at_append_old:
  "b < length h \<Longrightarrow> map_at (h @ [obj]) b = map_at h b"
  by (simp add: map_at_def store_read_append)

lemma those_Some_iff:
  "those (map f xs) = Some ys \<longleftrightarrow> list_all2 (\<lambda>x y. f x = Some y) xs ys"
proof (induction xs arbitrary: ys)
  case Nil
  then show ?case by auto
next
  case (Cons x xs)
  show ?case
    by (cases ys) (auto simp: Cons.IH split: option.splits)
qed

lemma those_records_iff:
  "those_records h xs = Some rs \<longleftrightarrow> list_all2 (\<lambda>a r. record_at h a = Some r) xs rs"
  by (simp add: those_records_def those_Some_iff)

lemma those_records_untouched:
  "untouched h h' \<Longrightarrow> those_records h xs = Some rs \<Longrightarrow> those_records h' xs = Some rs"
  unfolding those_records_iff
  by (erule list_all2_mono) (rule record_at_untouched)

lemma read_collection_untouched:
  "untouched h h' \<Longrightarrow> read_collection h arr = Some coll \<Longrightarrow> read_collection h' arr = Some coll"
  by (auto simp: read_collection_def bind_eq_Some_conv array_at_untouched those_records_untouched)

text \<open>Defining a property in two maps with the same names keeps them in step.\<close>

lemma in_step_keys: "in_step P m vm \<Longrightarrow> map fst m = map fst vm"
  unfolding in_step_def by (induction m vm rule: list_all2_induct) auto

lemma in_step_has: "in_step P m vm \<Longrightarrow> js_has m k = js_has vm k"
  using in_step_keys [of P m vm] by (simp add: js_has_keys)

lemma in_step_replace:
  "in_step P m vm \<Longrightarrow> P a r \<Longrightarrow>
   in_step P (map (\<lambda>p. if fst p = k then (k, a) else p) m) (map (\<lambda>p. if fst p = k then (k, r) else p) vm)"
  unfolding in_step_def by (induction m vm rule: list_all2_induct) auto

lemma in_step_insert_index:
  "in_step P m vm \<Longrightarrow> P a r \<Longrightarrow> in_step P (insert_index m k a) (insert_index vm k r)"
  unfolding in_step_def
proof (induction m vm rule: list_all2_induct)
  case Nil
  then show ?case by simp
next
  case (Cons p m q vm)
  then show ?case by (cases p; cases q) auto
qed

lemma in_step_js_set:
  assumes "in_step P m vm" and "P a r"
  shows "in_step P (js_set m k a) (js_set vm k r)"
proof -
  have "in_step P (m @ [(k, a)]) (vm @ [(k, r)])"
    using assms by (simp add: in_step_def list_all2_appendI)
  then show ?thesis
    using assms in_step_has [OF assms(1), of k]
    by (simp add: js_set_def in_step_replace in_step_insert_index)
qed

lemma in_step_snoc: "in_step P m vm \<Longrightarrow> P a r \<Longrightarrow> in_step P (m @ [(k, a)]) (vm @ [(k, r)])"
  by (simp add: in_step_def list_all2_appendI)

lemma in_step_weaken:
  assumes "in_step P m vm" and "\<And>b r. P b r \<Longrightarrow> Q b r"
  shows "in_step Q m vm"
  using assms(1) unfolding in_step_def
  by (rule list_all2_mono) (auto intro: assms(2))

lemma in_step_records_iff:
  "in_step (\<lambda>b r. record_at h b = Some r) m vm \<longleftrightarrow>
     (\<exists>rs. those_records h (map snd m) = Some rs \<and> vm = zip (map fst m) rs)"
  unfolding those_records_iff
proof
  assume s: "in_step (\<lambda>b r. record_at h b = Some r) m vm"
  then have "list_all2 (\<lambda>b r. record_at h b = Some r) (map snd m) (map snd vm)"
    unfolding in_step_def by (induction m vm rule: list_all2_induct) auto
  moreover have "vm = zip (map fst m) (map snd vm)"
    using in_step_keys [OF s] by (simp add: zip_map_fst_snd)
  ultimately show "\<exists>rs. list_all2 (\<lambda>b r. record_at h b = Some r) (map snd m) rs \<and> vm = zip (map fst m) rs"
    by blast
next
  assume "\<exists>rs. list_all2 (\<lambda>b r. record_at h b = Some r) (map snd m) rs \<and> vm = zip (map fst m) rs"
  then obtain rs where rs: "list_all2 (\<lambda>b r. record_at h b = Some r) (map snd m) rs"
    and vm: "vm = zip (map fst m) rs" by blast
  from rs show "in_step (\<lambda>b r. record_at h b = Some r) m vm"
    unfolding vm in_step_def
  proof (induction m arbitrary: rs)
    case Nil
    then show ?case by simp
  next
    case (Cons p m)
    then show ?case by (cases rs) auto
  qed
qed

lemma in_step_records_untouched:
  "untouched h h' \<Longrightarrow> in_step (\<lambda>b r. record_at h b = Some r) m vm
    \<Longrightarrow> in_step (\<lambda>b r. record_at h' b = Some r) m vm"
  unfolding in_step_def
  by (erule list_all2_mono) (auto intro: record_at_untouched)

lemma read_map_iff:
  "read_map h a = Some vm \<longleftrightarrow>
     (\<exists>m. map_at h a = Some m \<and> in_step (\<lambda>b r. record_at h b = Some r) m vm)"
  by (auto simp: read_map_def bind_eq_Some_conv in_step_records_iff)

lemma read_console_iff:
  "read_console h con = Some vc \<longleftrightarrow> in_step (\<lambda>b r. record_at h b = Some r) con vc"
  by (auto simp: read_console_def bind_eq_Some_conv in_step_records_iff)

lemma read_map_untouched:
  "untouched h h' \<Longrightarrow> read_map h a = Some vm \<Longrightarrow> read_map h' a = Some vm"
  by (auto simp: read_map_def bind_eq_Some_conv map_at_untouched those_records_untouched)

subsection \<open>normalize and denormalize on the store\<close>

lemma normalize_step_sim:
  assumes sim: "normalize_sim hb st vst"
    and item: "record_at hb item = Some ps"
  shows "\<exists>st'. normalize_step_h key (Some st) item = Some st'
    \<and> normalize_sim hb st' (normalize_step key vst ps)"
proof -
  obtain h con res where st: "st = (h, con, res)" by (cases st)
  obtain vcon vres where vst: "vst = (vcon, vres)" by (cases vst)
  from sim have un: "untouched hb h"
    and cs: "in_step (\<lambda>b r. record_at hb b = Some r) con vcon"
    by (simp_all add: normalize_sim_def st vst)
  show ?thesis
  proof (cases res)
    case (Inl e)
    with sim have v: "vres = Inl e"
      by (simp add: normalize_sim_def st vst)
    have "normalize_step_h key (Some st) item = Some (h, con, Inl e)"
      by (simp add: normalize_step_h_def st Inl)
    moreover have "normalize_step key vst ps = (vcon, Inl e)"
      by (simp add: normalize_step_def vst v)
    moreover have "normalize_sim hb (h, con, Inl e) (vcon, Inl e)"
      using un cs by (simp add: normalize_sim_def)
    ultimately show ?thesis by simp
  next
    case (Inr acc)
    with sim obtain m vm where v: "vres = Inr vm" and m: "map_at h acc = Some m"
      and ms: "in_step (\<lambda>b r. record_at hb b = Some r) m vm"
      by (auto simp: normalize_sim_def st vst)
    have r: "record_at h item = Some ps"
      using un item by (rule record_at_untouched)
    show ?thesis
    proof (cases "keyed key ps")
      case False
      then have g: "(js_get ps key = Data Undefined \<or> js_get ps key = Data Null) = True"
        by (simp add: keyed_def)
      have "normalize_step_h key (Some st) item
          = Some (h, con @ [(missing_key_message key, item)], Inr acc)"
        by (simp add: normalize_step_h_def st Inr r g Let_def)
      moreover have "normalize_step key vst ps = (vcon @ [(missing_key_message key, ps)], Inr vm)"
        unfolding vst v by (rule normalize_step_skip [OF False])
      moreover have "normalize_sim hb (h, con @ [(missing_key_message key, item)], Inr acc)
          (vcon @ [(missing_key_message key, ps)], Inr vm)"
        using un m ms in_step_snoc [OF cs item] by (simp add: normalize_sim_def)
      ultimately show ?thesis by simp
    next
      case True
      then have g: "(js_get ps key = Data Undefined \<or> js_get ps key = Data Null) = False"
        by (simp add: keyed_def)
      show ?thesis
      proof (cases "ToPropertyKey (js_get ps key)")
        case (Inl e)
        have "normalize_step_h key (Some st) item = Some (h, con, Inl e)"
          by (simp add: normalize_step_h_def st Inr r g Let_def Inl)
        moreover have "normalize_step key vst ps = (vcon, Inl e)"
          unfolding vst v by (rule normalize_step_throw [OF True Inl])
        moreover have "normalize_sim hb (h, con, Inl e) (vcon, Inl e)"
          using un cs by (simp add: normalize_sim_def)
        ultimately show ?thesis by simp
      next
        case k: (Inr k)
        have "normalize_step_h key (Some st) item
            = Some (h @ [HMap (js_set m k item)], con, Inr (length h))"
          by (simp add: normalize_step_h_def st Inr r g Let_def k m store_alloc_def)
        moreover have "normalize_step key vst ps = (vcon, Inr (js_set vm k ps))"
          unfolding vst v by (rule normalize_step_keep [OF True k])
        moreover have "normalize_sim hb (h @ [HMap (js_set m k item)], con, Inr (length h))
            (vcon, Inr (js_set vm k ps))"
          using untouched_append [OF un] cs in_step_js_set [OF ms item]
          by (simp add: normalize_sim_def map_at_alloc_new)
        ultimately show ?thesis by simp
      qed
    qed
  qed
qed

lemma normalize_fold_sim:
  assumes "list_all2 (\<lambda>a r. record_at hb a = Some r) xs coll"
    and "normalize_sim hb st vst"
  shows "\<exists>st'. foldl (normalize_step_h key) (Some st) xs = Some st'
    \<and> normalize_sim hb st' (foldl (normalize_step key) vst coll)"
  using assms
proof (induction xs coll arbitrary: st vst rule: list_all2_induct)
  case Nil
  then show ?case by simp
next
  case (Cons a xs r coll)
  from normalize_step_sim [OF Cons.prems Cons.hyps(1), of key]
  obtain st1 where 1: "normalize_step_h key (Some st) a = Some st1"
    and 2: "normalize_sim hb st1 (normalize_step key vst r)" by blast
  from Cons.IH [OF 2] 1 show ?case by simp
qed

lemma normalize_h_correct:
  assumes "read_collection h arr = Some coll"
  shows "\<exists>h' con res. normalize_h h arr key = Some (h', con, res)
    \<and> untouched h h'
    \<and> read_outcome read_map h' res = Some (snd (normalize_entities coll key))
    \<and> read_console h' con = Some (fst (normalize_entities coll key))"
proof -
  from assms obtain xs where xs: "array_at h arr = Some xs"
    and recs: "list_all2 (\<lambda>a r. record_at h a = Some r) xs coll"
    by (auto simp: read_collection_def bind_eq_Some_conv those_records_iff)
  have init: "normalize_sim h (h @ [HMap []], [], Inr (length h)) ([], Inr [])"
    by (simp add: normalize_sim_def untouched_append untouched_refl map_at_alloc_new in_step_def)
  from normalize_fold_sim [OF recs init, of key]
  obtain st' where run: "foldl (normalize_step_h key) (Some (h @ [HMap []], [], Inr (length h))) xs = Some st'"
    and sim: "normalize_sim h st' (normalize_entities coll key)"
    unfolding normalize_entities_def by blast
  obtain h' con res where st': "st' = (h', con, res)" by (cases st')
  from sim have un: "untouched h h'"
    and cs: "in_step (\<lambda>b r. record_at h b = Some r) con (fst (normalize_entities coll key))"
    by (simp_all add: normalize_sim_def st')
  have 1: "normalize_h h arr key = Some (h', con, res)"
    using run by (simp add: normalize_h_def xs store_alloc_def st')
  have 2: "read_console h' con = Some (fst (normalize_entities coll key))"
    unfolding read_console_iff using in_step_records_untouched [OF un cs] .
  have 3: "read_outcome read_map h' res = Some (snd (normalize_entities coll key))"
  proof (cases res)
    case (Inl e)
    with sim show ?thesis
      by (simp add: normalize_sim_def st' read_outcome_def)
  next
    case (Inr acc)
    with sim obtain m vm where v: "snd (normalize_entities coll key) = Inr vm"
      and m: "map_at h' acc = Some m"
      and ms: "in_step (\<lambda>b r. record_at h b = Some r) m vm"
      by (auto simp: normalize_sim_def st')
    have "read_map h' acc = Some vm"
      unfolding read_map_iff using m in_step_records_untouched [OF un ms] by blast
    then show ?thesis
      by (simp add: read_outcome_def Inr v)
  qed
  from 1 un 3 2 show ?thesis by blast
qed

lemma denormalize_h_correct:
  assumes "read_map h obj = Some vm"
  shows "\<exists>h' r. denormalize_h h obj = Some (h', r)
    \<and> untouched h h'
    \<and> read_collection h' r = Some (denormalize vm)"
proof -
  from assms obtain m where m: "map_at h obj = Some m"
    and ms: "in_step (\<lambda>b r. record_at h b = Some r) m vm"
    unfolding read_map_iff by blast
  from ms have "list_all2 (\<lambda>b r. record_at h b = Some r) (map snd m) (map snd vm)"
    unfolding in_step_def by (induction m vm rule: list_all2_induct) auto
  then have "list_all2 (\<lambda>b r. record_at (h @ [HArray (map snd m)]) b = Some r) (map snd m) (map snd vm)"
    by (rule list_all2_mono) (rule record_at_alloc)
  then have "read_collection (h @ [HArray (map snd m)]) (length h) = Some (denormalize vm)"
    by (simp add: read_collection_def array_at_alloc_new those_records_iff denormalize_def)
  moreover have "denormalize_h h obj = Some (h @ [HArray (map snd m)], length h)"
    by (simp add: denormalize_h_def m store_alloc_def denormalize_def)
  ultimately show ?thesis
    using untouched_append [OF untouched_refl, of h] by blast
qed

subsection \<open>extractEntities on the store\<close>

text \<open>An assignment to two objects in step keeps them in step.\<close>

lemma in_step_js_assign:
  assumes ms: "in_step P m vm"
    and ps: "rel_option P p vp"
    and new: "P a r"
    and sh: "\<And>b r. P b r \<Longrightarrow> shh b = shv r"
  shows "in_step P (fst (js_assign shh (m, p) k a)) (fst (js_assign shv (vm, vp) k r))
    \<and> rel_option P (snd (js_assign shh (m, p) k a)) (snd (js_assign shv (vm, vp) k r))"
proof -
  define setter where
    "setter \<longleftrightarrow> k = ''__proto__'' \<and> \<not> js_has m k \<and> \<not> (case p of None \<Rightarrow> False | Some b \<Rightarrow> shh b)"
  have c: "(case vp of None \<Rightarrow> False | Some r \<Rightarrow> shv r) = (case p of None \<Rightarrow> False | Some b \<Rightarrow> shh b)"
    using ps sh by (cases p; cases vp) auto
  have h: "js_has vm k = js_has m k"
    using in_step_has [OF ms, of k] by simp
  have v: "js_assign shv (vm, vp) k r = (if setter then (vm, Some r) else (js_set vm k r, vp))"
    unfolding js_assign_def fst_conv snd_conv c h setter_def ..
  have s: "js_assign shh (m, p) k a = (if setter then (m, Some a) else (js_set m k a, p))"
    unfolding js_assign_def fst_conv snd_conv setter_def ..
  show ?thesis
    unfolding s v using ms ps new in_step_js_set [OF ms new, of k] by (cases setter) simp_all
qed

lemma extract_simI:
  assumes "untouched hb h"
    and "length hb \<le> ents" "length hb \<le> nitems" "ents \<noteq> nitems"
    and "entities_at h ents = Some (entities s, entities_proto s)"
    and "items_at h nitems = Some (m, p)"
    and "in_step (copy_at hb h ents nitems) m (items s)"
    and "rel_option (copy_at hb h ents nitems) p (items_proto s)"
  shows "extract_sim hb (h, Inr (ents, nitems)) (Inr s)"
  unfolding extract_sim_def using assms by auto

lemma extract_simE:
  assumes "extract_sim hb (h, Inr (ents, nitems)) vst"
  obtains s m p where "vst = Inr s"
    and "untouched hb h"
    and "length hb \<le> ents" "length hb \<le> nitems" "ents \<noteq> nitems"
    and "entities_at h ents = Some (entities s, entities_proto s)"
    and "items_at h nitems = Some (m, p)"
    and "in_step (copy_at hb h ents nitems) m (items s)"
    and "rel_option (copy_at hb h ents nitems) p (items_proto s)"
  using assms unfolding extract_sim_def by (cases "the (items_at h nitems)") auto

lemma rel_option_weaken:
  assumes "rel_option P p vp" and "\<And>b r. P b r \<Longrightarrow> Q b r"
  shows "rel_option Q p vp"
  using assms by (cases p; cases vp) auto

text \<open>The last statement of the body of the loop.\<close>

lemma store_item_sim:
  assumes un: "untouched hb h"
    and ge: "length hb \<le> ents" "length hb \<le> nitems" and ne: "ents \<noteq> nitems"
    and item: "record_at h item = Some ps"
    and es: "entities_at h ents = Some (E, Ep)"
    and its: "items_at h nitems = Some (m, p)"
    and ms: "in_step (copy_at hb h ents nitems) m vm"
    and pp: "rel_option (copy_at hb h ents nitems) p vp"
    and copy: "copy_at hb h ents nitems c cr"
  shows "\<exists>st'. store_item_h ik h item c ents nitems = Some st'
    \<and> extract_sim hb st'
        (case ToPropertyKey (js_get ps ik) of
           Inl e \<Rightarrow> Inl e
         | Inr k \<Rightarrow> Inr \<lparr>items = fst (js_assign record_shadows (vm, vp) k cr),
                          items_proto = snd (js_assign record_shadows (vm, vp) k cr),
                          entities = E, entities_proto = Ep\<rparr>)"
proof (cases "ToPropertyKey (js_get ps ik)")
  case (Inl e)
  then have "store_item_h ik h item c ents nitems = Some (h, Inl e)"
    by (simp add: store_item_h_def item)
  moreover have "extract_sim hb (h, Inl e) (Inl e)"
    using un by (simp add: extract_sim_def)
  ultimately show ?thesis
    using Inl by simp
next
  case (Inr k)
  let ?A = "js_assign (shadows_at h) (m, p) k c"
  let ?V = "js_assign record_shadows (vm, vp) k cr"
  let ?h = "h[nitems := HItems (fst ?A) (snd ?A)]"
  have run: "store_item_h ik h item c ents nitems = Some (?h, Inr (ents, nitems))"
    by (simp add: store_item_h_def item Inr items_assign_def its Let_def)
  have sh: "shadows_at h b = record_shadows r" if "copy_at hb h ents nitems b r" for b r
    using that by (simp add: copy_at_def shadows_at_def)
  from in_step_js_assign [of "copy_at hb h ents nitems" m vm p vp c cr "shadows_at h" record_shadows k,
      OF ms pp copy sh]
  have a1: "in_step (copy_at hb h ents nitems) (fst ?A) (fst ?V)"
    and a2: "rel_option (copy_at hb h ents nitems) (snd ?A) (snd ?V)"
    by simp_all
  have keep: "copy_at hb ?h ents nitems b r" if "copy_at hb h ents nitems b r" for b r
    using that by (simp add: copy_at_def record_at_update_other)
  have un': "untouched hb ?h"
    using ge(2) un by (rule untouched_update)
  have es': "entities_at ?h ents = Some (E, Ep)"
    using es ne by (simp add: entities_at_def store_read_update)
  have lt: "nitems < length h"
    using its by (rule items_at_less)
  have its': "items_at ?h nitems = Some (fst ?A, snd ?A)"
    using lt by (simp add: items_at_def store_read_update)
  have ms': "in_step (copy_at hb ?h ents nitems) (fst ?A) (fst ?V)"
    using a1 keep by (rule in_step_weaken)
  have pp': "rel_option (copy_at hb ?h ents nitems) (snd ?A) (snd ?V)"
    using a2 keep by (rule rel_option_weaken)
  have "extract_sim hb (?h, Inr (ents, nitems))
      (Inr \<lparr>items = fst ?V, items_proto = snd ?V, entities = E, entities_proto = Ep\<rparr>)"
    using un' ge ne _ its' by (rule extract_simI) (simp_all add: es' ms' pp')
  with run Inr show ?thesis by simp
qed

text \<open>What one round of the loop does to the store.\<close>

lemma extract_step_sim:
  assumes sim: "extract_sim hb st vst"
    and item: "record_at hb item = Some ps"
  shows "\<exists>st'. extract_step_h ek ik (Some st) item = Some st'
    \<and> extract_sim hb st' (extract_step ek ik vst ps)"
proof -
  obtain h res where st: "st = (h, res)" by (cases st)
  from sim have un: "untouched hb h"
    by (simp add: extract_sim_def st)
  show ?thesis
  proof (cases res)
    case (Inl e)
    with sim have v: "vst = Inl e"
      by (simp add: extract_sim_def st)
    have "extract_step_h ek ik (Some st) item = Some (h, Inl e)"
      by (simp add: extract_step_h_def st Inl)
    moreover have "extract_step ek ik vst ps = Inl e"
      by (simp add: extract_step_def v)
    moreover have "extract_sim hb (h, Inl e) (Inl e)"
      using un by (simp add: extract_sim_def)
    ultimately show ?thesis by simp
  next
    case (Inr pair)
    obtain ents nitems where pair: "pair = (ents, nitems)" by (cases pair)
    from sim have "extract_sim hb (h, Inr (ents, nitems)) vst"
      by (simp add: st Inr pair)
    then obtain s m p where v: "vst = Inr s"
      and ge: "length hb \<le> ents" "length hb \<le> nitems" and ne: "ents \<noteq> nitems"
      and es: "entities_at h ents = Some (entities s, entities_proto s)"
      and its: "items_at h nitems = Some (m, p)"
      and ms: "in_step (copy_at hb h ents nitems) m (items s)"
      and pp: "rel_option (copy_at hb h ents nitems) p (items_proto s)"
      by (rule extract_simE)
    note lt = record_at_less [OF item] entities_at_less [OF es] items_at_less [OF its]
      untouched_length [OF un]
    have r: "record_at h item = Some ps"
      using un item by (rule record_at_untouched)
    let ?h1 = "h @ [HRecord ps]"
    have un1: "untouched hb ?h1"
      using un by (rule untouched_append)
    have item1: "record_at ?h1 item = Some ps"
      using r by (rule record_at_alloc)
    have es1: "entities_at ?h1 ents = Some (entities s, entities_proto s)"
      using es lt by (simp add: entities_at_def store_read_append)
    have its1: "items_at ?h1 nitems = Some (m, p)"
      using its lt by (simp add: items_at_def store_read_append)
    have keep1: "copy_at hb ?h1 ents nitems b r" if "copy_at hb h ents nitems b r" for b r
      using that by (simp add: copy_at_def record_at_alloc)
    have ms1: "in_step (copy_at hb ?h1 ents nitems) m (items s)"
      using ms keep1 by (rule in_step_weaken)
    have pp1: "rel_option (copy_at hb ?h1 ents nitems) p (items_proto s)"
      using pp keep1 by (rule rel_option_weaken)
    have new1: "copy_at hb ?h1 ents nitems (length h) ps"
      using lt by (simp add: copy_at_def record_at_def store_read_def)
    show ?thesis
    proof (cases "extracts ek ik ps")
      case False
      then have g: "(truthy (js_get ps ek) \<and> typeof (js_get ps ek) = ''object'' \<and> js_in ik (js_get ps ek)) = False"
        by (simp add: extracts_def)
      have run: "extract_step_h ek ik (Some st) item = store_item_h ik ?h1 item (length h) ents nitems"
        by (simp add: extract_step_h_def st Inr pair r store_alloc_def g Let_def)
      have val: "extract_step ek ik vst ps =
          (case ToPropertyKey (js_get ps ik) of
             Inl e \<Rightarrow> Inl e
           | Inr k \<Rightarrow> Inr \<lparr>items = fst (js_assign record_shadows (items s, items_proto s) k ps),
                            items_proto = snd (js_assign record_shadows (items s, items_proto s) k ps),
                            entities = entities s, entities_proto = entities_proto s\<rparr>)"
        by (simp add: extract_step_def v g Let_def split: sum.splits)
      from store_item_sim [OF un1 ge ne item1 es1 its1 ms1 pp1 new1, of ik] run val
      show ?thesis by simp
    next
      case True
      then have g: "(truthy (js_get ps ek) \<and> typeof (js_get ps ek) = ''object'' \<and> js_in ik (js_get ps ek)) = True"
        by (simp add: extracts_def)
      let ?entity = "js_get ps ek"
      let ?entityId = "js_index ?entity ik"
      show ?thesis
      proof (cases "ToPropertyKey ?entityId")
        case (Inl e)
        have "extract_step_h ek ik (Some st) item = Some (?h1, Inl e)"
          by (simp add: extract_step_h_def st Inr pair r store_alloc_def g Let_def Inl)
        moreover have "extract_step ek ik vst ps = Inl e"
          by (simp add: extract_step_def v g Let_def Inl)
        moreover have "extract_sim hb (?h1, Inl e) (Inl e)"
          using un1 by (simp add: extract_sim_def)
        ultimately show ?thesis by simp
      next
        case ke: (Inr ke)
        let ?E = "js_assign entity_shadows (entities s, entities_proto s) ke ?entity"
        let ?copy = "js_set (js_delete ps ek) (ek @ ''Id'') ?entityId"
        let ?h2 = "?h1[ents := HEntities (fst ?E) (snd ?E)]"
        let ?h3 = "?h2[length h := HRecord (js_delete ps ek)]"
        let ?h4 = "?h3[length h := HRecord ?copy]"
        have 1: "entities_assign ?h1 ents ke ?entity = Some ?h2"
          by (simp add: entities_assign_def es1 Let_def)
        have copy2: "record_at ?h2 (length h) = Some ps"
          using lt by (simp add: record_at_def store_read_def)
        have 2: "record_delete ?h2 (length h) ek = Some ?h3"
          by (simp add: record_delete_def copy2)
        have copy3: "record_at ?h3 (length h) = Some (js_delete ps ek)"
          by (simp add: record_at_def store_read_def)
        have 3: "record_set ?h3 (length h) (ek @ ''Id'') ?entityId = Some ?h4"
          by (simp add: record_set_def copy3)
        have run: "extract_step_h ek ik (Some st) item = store_item_h ik ?h4 item (length h) ents nitems"
          using 1 2 3
          by (simp add: extract_step_h_def st Inr pair r store_alloc_def g Let_def ke)
        have val: "extract_step ek ik vst ps =
            (case ToPropertyKey (js_get ps ik) of
               Inl e \<Rightarrow> Inl e
             | Inr k \<Rightarrow> Inr \<lparr>items = fst (js_assign record_shadows (items s, items_proto s) k ?copy),
                              items_proto = snd (js_assign record_shadows (items s, items_proto s) k ?copy),
                              entities = fst ?E, entities_proto = snd ?E\<rparr>)"
          by (simp add: extract_step_def v g Let_def ke split: sum.splits)
        have un4: "untouched hb ?h4"
          using ge lt by (intro untouched_update un1) simp_all
        have item4: "record_at ?h4 item = Some ps"
          using lt ge r by (simp add: record_at_def store_read_def nth_append)
        have es4: "entities_at ?h4 ents = Some (fst ?E, snd ?E)"
          using lt by (simp add: entities_at_def store_read_def nth_append)
        have its4: "items_at ?h4 nitems = Some (m, p)"
          using lt ne its by (simp add: items_at_def store_read_def nth_append)
        have keep4: "copy_at hb ?h4 ents nitems b r" if c: "copy_at hb h ents nitems b r" for b r
        proof -
          from c have rb: "record_at h b = Some r" and be: "b \<noteq> ents"
            by (simp_all add: copy_at_def)
          from rb have "b < length h"
            by (rule record_at_less)
          then have bl: "b \<noteq> length h"
            by simp
          have "record_at ?h4 b = record_at ?h1 b"
            using be bl by (simp add: record_at_update_other)
          also have "\<dots> = Some r"
            using rb by (rule record_at_alloc)
          finally show ?thesis
            using c by (simp add: copy_at_def)
        qed
        have ms4: "in_step (copy_at hb ?h4 ents nitems) m (items s)"
          using ms keep4 by (rule in_step_weaken)
        have pp4: "rel_option (copy_at hb ?h4 ents nitems) p (items_proto s)"
          using pp keep4 by (rule rel_option_weaken)
        have new4: "copy_at hb ?h4 ents nitems (length h) ?copy"
          using lt by (simp add: copy_at_def record_at_def store_read_def)
        from store_item_sim [OF un4 ge ne item4 es4 its4 ms4 pp4 new4, of ik] run val
        show ?thesis by simp
      qed
    qed
  qed
qed

lemma extract_fold_sim:
  assumes "list_all2 (\<lambda>a r. record_at hb a = Some r) xs coll"
    and "extract_sim hb st vst"
  shows "\<exists>st'. foldl (extract_step_h ek ik) (Some st) xs = Some st'
    \<and> extract_sim hb st' (foldl (extract_step ek ik) vst coll)"
  using assms
proof (induction xs coll arbitrary: st vst rule: list_all2_induct)
  case Nil
  then show ?case by simp
next
  case (Cons a xs r coll)
  from extract_step_sim [OF Cons.prems Cons.hyps(1), of ek ik]
  obtain st1 where 1: "extract_step_h ek ik (Some st) a = Some st1"
    and 2: "extract_sim hb st1 (extract_step ek ik vst r)" by blast
  from Cons.IH [OF 2] 1 show ?case by simp
qed

lemma read_prototype_copy:
  "rel_option (\<lambda>b r. record_at h b = Some r) p vp \<Longrightarrow> read_prototype h p = Some vp"
  by (cases p; cases vp) (simp_all add: read_prototype_def)

lemma extractEntities_h_correct:
  assumes "read_collection h arr = Some coll"
  shows "\<exists>h' res. extractEntities_h h arr ek ik = Some (h', res)
    \<and> untouched h h'
    \<and> read_outcome read_extracted h' res = Some (extractEntities coll ek ik)"
proof -
  from assms obtain xs where xs: "array_at h arr = Some xs"
    and recs: "list_all2 (\<lambda>a r. record_at h a = Some r) xs coll"
    by (auto simp: read_collection_def bind_eq_Some_conv those_records_iff)
  let ?h0 = "h @ [HEntities [] None, HItems [] None]"
  let ?s0 = "\<lparr>items = [], items_proto = None, entities = [], entities_proto = None\<rparr>"
  have init: "extract_sim h (?h0, Inr (length h, Suc (length h))) (Inr ?s0)"
    by (simp add: extract_sim_def untouched_def entities_at_def items_at_def store_read_def
        nth_append in_step_def)
  from extract_fold_sim [OF recs init, of ek ik]
  obtain st' where run: "foldl (extract_step_h ek ik) (Some (?h0, Inr (length h, Suc (length h)))) xs = Some st'"
    and sim: "extract_sim h st' (extractEntities coll ek ik)"
    unfolding extractEntities_def by blast
  obtain h' res where st': "st' = (h', res)" by (cases st')
  from sim have un: "untouched h h'"
    by (simp add: extract_sim_def st')
  let ?res = "case res of Inl e \<Rightarrow> Inl e | Inr (ents, nitems) \<Rightarrow> Inr (nitems, ents)"
  have 1: "extractEntities_h h arr ek ik = Some (h', ?res)"
    using run by (simp add: extractEntities_h_def xs store_alloc_def st')
  have 2: "read_outcome read_extracted h' ?res = Some (extractEntities coll ek ik)"
  proof (cases res)
    case (Inl e)
    with sim show ?thesis
      by (simp add: extract_sim_def st' read_outcome_def)
  next
    case (Inr pair)
    obtain ents nitems where pair: "pair = (ents, nitems)" by (cases pair)
    from sim have "extract_sim h (h', Inr (ents, nitems)) (extractEntities coll ek ik)"
      by (simp add: st' Inr pair)
    then obtain s m p where v: "extractEntities coll ek ik = Inr s"
      and es: "entities_at h' ents = Some (entities s, entities_proto s)"
      and its: "items_at h' nitems = Some (m, p)"
      and ms: "in_step (copy_at h h' ents nitems) m (items s)"
      and pp: "rel_option (copy_at h h' ents nitems) p (items_proto s)"
      by (rule extract_simE)
    have "in_step (\<lambda>b r. record_at h' b = Some r) m (items s)"
      using ms by (rule in_step_weaken) (simp add: copy_at_def)
    then obtain rs where rs: "those_records h' (map snd m) = Some rs"
      and z: "items s = zip (map fst m) rs"
      unfolding in_step_records_iff by blast
    have "rel_option (\<lambda>b r. record_at h' b = Some r) p (items_proto s)"
      using pp by (rule rel_option_weaken) (simp add: copy_at_def)
    then have pr: "read_prototype h' p = Some (items_proto s)"
      by (rule read_prototype_copy)
    have "read_extracted h' (nitems, ents) = Some s"
      by (simp add: read_extracted_def its rs pr es z [symmetric])
    then show ?thesis
      by (simp add: read_outcome_def Inr pair v)
  qed
  from 1 un 2 show ?thesis by blast
qed

subsection \<open>Purity\<close>

text \<open>
  Claim C8. Let the store hold a collection at \<open>arr\<close> and an entity map at
  \<open>obj\<close>. Then \<^verbatim>\<open>normalize\<close>, \<^verbatim>\<open>denormalize\<close> and
  \<^verbatim>\<open>extractEntities\<close> return or throw, and every object that the store held
  before the call (the array, the records, the map) is in the store after the call, at
  its address and as it was: the calls allocate, and write only to what they allocated.
  What they give, the error thrown or the result read back from the store, is the value
  of the function on the contents of its input, so it depends on these contents only; a
  second call on the store that the first one leaves gives a result with the same
  contents. The console output of \<^verbatim>\<open>normalize\<close> is the list of its
  diagnostics; the other two functions have no access to the console.
\<close>

theorem utilities_leave_inputs_unchanged:
  assumes coll: "read_collection h arr = Some coll"
    and vm: "read_map h obj = Some vm"
  shows
    "(\<exists>h' con res. normalize_h h arr key = Some (h', con, res) \<and> untouched h h'
        \<and> read_outcome read_map h' res = Some (snd (normalize_entities coll key))
        \<and> read_console h' con = Some (fst (normalize_entities coll key))
        \<and> (\<exists>h'' con' res'. normalize_h h' arr key = Some (h'', con', res') \<and> untouched h' h''
              \<and> read_outcome read_map h'' res' = Some (snd (normalize_entities coll key))
              \<and> read_console h'' con' = Some (fst (normalize_entities coll key))))
     \<and> (\<exists>h' r. denormalize_h h obj = Some (h', r) \<and> untouched h h'
        \<and> read_collection h' r = Some (denormalize vm)
        \<and> (\<exists>h'' r'. denormalize_h h' obj = Some (h'', r') \<and> untouched h' h''
              \<and> read_collection h'' r' = Some (denormalize vm)))
     \<and> (\<exists>h' res. extractEntities_h h arr ek ik = Some (h', res) \<and> untouched h h'
        \<and> read_outcome read_extracted h' res = Some (extractEntities coll ek ik)
        \<and> (\<exists>h'' res'. extractEntities_h h' arr ek ik = Some (h'', res') \<and> untouched h' h''
              \<and> read_outcome read_extracted h'' res' = Some (extractEntities coll ek ik)))"
proof (intro conjI)
  from normalize_h_correct [OF coll, of key]
  obtain h' con res where 1: "normalize_h h arr key = Some (h', con, res)" "untouched h h'"
      "read_outcome read_map h' res = Some (snd (normalize_entities coll key))"
      "read_console h' con = Some (fst (normalize_entities coll key))"
    by blast
  from normalize_h_correct [OF read_collection_untouched [OF 1(2) coll], of key] 1
  show "\<exists>h' con res. normalize_h h arr key = Some (h', con, res) \<and> untouched h h'
        \<and> read_outcome read_map h' res = Some (snd (normalize_entities coll key))
        \<and> read_console h' con = Some (fst (normalize_entities coll key))
        \<and> (\<exists>h'' con' res'. normalize_h h' arr key = Some (h'', con', res') \<and> untouched h' h''
              \<and> read_outcome read_map h'' res' = Some (snd (normalize_entities coll key))
              \<and> read_console h'' con' = Some (fst (normalize_entities coll key)))"
    by blast
next
  from denormalize_h_correct [OF vm]
  obtain h' r where 1: "denormalize_h h obj = Some (h', r)" "untouched h h'"
      "read_collection h' r = Some (denormalize vm)"
    by blast
  from denormalize_h_correct [OF read_map_untouched [OF 1(2) vm]] 1
  show "\<exists>h' r. denormalize_h h obj = Some (h', r) \<and> untouched h h'
        \<and> read_collection h' r = Some (denormalize vm)
        \<and> (\<exists>h'' r'. denormalize_h h' obj = Some (h'', r') \<and> untouched h' h''
              \<and> read_collection h'' r' = Some (denormalize vm))"
    by blast
next
  from extractEntities_h_correct [OF coll, of ek ik]
  obtain h' res where 1: "extractEntities_h h arr ek ik = Some (h', res)" "untouched h h'"
      "read_outcome read_extracted h' res = Some (extractEntities coll ek ik)"
    by blast
  from extractEntities_h_correct [OF read_collection_untouched [OF 1(2) coll], of ek ik] 1
  show "\<exists>h' res. extractEntities_h h arr ek ik = Some (h', res) \<and> untouched h h'
        \<and> read_outcome read_extracted h' res = Some (extractEntities coll ek ik)
        \<and> (\<exists>h'' res'. extractEntities_h h' arr ek ik = Some (h'', res') \<and> untouched h' h''
              \<and> read_outcome read_extracted h'' res' = Some (extractEntities coll ek ik))"
    by blast
qed

lemmas store_eval = read_collection_def read_map_def those_records_def array_at_def map_at_def
  record_at_def store_read_def items_at_def entities_at_def

lemma small_store_collection:
  "read_collection
     [HRecord [(''id'', Data (Num 1)), (''title'', Data (Str ''P1'')),
               (''author'', Data (Obj [(''id'', Num 10), (''name'', Str ''John'')]))],
      HRecord [(''title'', Data (Str ''P2''))], HArray [0, 1], HMap [(''1'', 0)]] 2
   = Some [[(''id'', Data (Num 1)), (''title'', Data (Str ''P1'')),
            (''author'', Data (Obj [(''id'', Num 10), (''name'', Str ''John'')]))],
           [(''title'', Data (Str ''P2''))]]"
  by (simp add: store_eval)

lemma small_store_map:
  "read_map
     [HRecord [(''id'', Data (Num 1)), (''title'', Data (Str ''P1'')),
               (''author'', Data (Obj [(''id'', Num 10), (''name'', Str ''John'')]))],
      HRecord [(''title'', Data (Str ''P2''))], HArray [0, 1], HMap [(''1'', 0)]] 3
   = Some [(''1'', [(''id'', Data (Num 1)), (''title'', Data (Str ''P1'')),
                   (''author'', Data (Obj [(''id'', Num 10), (''name'', Str ''John'')]))])]"
  by (simp add: store_eval)

text \<open>A store with two posts, the array of the two and a map to the first.\<close>

theorem utilities_leave_inputs_unchanged_witness:
  "read_collection
     [HRecord [(''id'', Data (Num 1)), (''title'', Data (Str ''P1'')),
               (''author'', Data (Obj [(''id'', Num 10), (''name'', Str ''John'')]))],
      HRecord [(''title'', Data (Str ''P2''))], HArray [0, 1], HMap [(''1'', 0)]] 2
   = Some [[(''id'', Data (Num 1)), (''title'', Data (Str ''P1'')),
            (''author'', Data (Obj [(''id'', Num 10), (''name'', Str ''John'')]))],
           [(''title'', Data (Str ''P2''))]]
   \<and> (\<exists>h' con res. normalize_h
        [HRecord [(''id'', Data (Num 1)), (''title'', Data (Str ''P1'')),
                  (''author'', Data (Obj [(''id'', Num 10), (''name'', Str ''John'')]))],
         HRecord [(''title'', Data (Str ''P2''))], HArray [0, 1], HMap [(''1'', 0)]] 2 ''id''
        = Some (h', con, res)
      \<and> untouched
        [HRecord [(''id'', Data (Num 1)), (''title'', Data (Str ''P1'')),
                  (''author'', Data (Obj [(''id'', Num 10), (''name'', Str ''John'')]))],
         HRecord [(''title'', Data (Str ''P2''))], HArray [0, 1], HMap [(''1'', 0)]] h')
   \<and> (\<exists>h' res. extractEntities_h
        [HRecord [(''id'', Data (Num 1)), (''title'', Data (Str ''P1'')),
                  (''author'', Data (Obj [(''id'', Num 10), (''name'', Str ''John'')]))],
         HRecord [(''title'', Data (Str ''P2''))], HArray [0, 1], HMap [(''1'', 0)]] 2 ''author'' ''id''
        = Some (h', res)
      \<and> untouched
        [HRecord [(''id'', Data (Num 1)), (''title'', Data (Str ''P1'')),
                  (''author'', Data (Obj [(''id'', Num 10), (''name'', Str ''John'')]))],
         HRecord [(''title'', Data (Str ''P2''))], HArray [0, 1], HMap [(''1'', 0)]] h')"
proof -
  let ?h = "[HRecord [(''id'', Data (Num 1)), (''title'', Data (Str ''P1'')),
                  (''author'', Data (Obj [(''id'', Num 10), (''name'', Str ''John'')]))],
         HRecord [(''title'', Data (Str ''P2''))], HArray [0, 1], HMap [(''1'', 0)]]"
  note t = utilities_leave_inputs_unchanged [OF small_store_collection small_store_map,
      of "''id''" "''author''" "''id''"]
  from t [THEN conjunct1]
  obtain h' con res where "normalize_h ?h 2 ''id'' = Some (h', con, res)" and "untouched ?h h'"
    by (elim exE conjE) (rule that; assumption)
  then have 1: "\<exists>h' con res. normalize_h ?h 2 ''id'' = Some (h', con, res) \<and> untouched ?h h'"
    by blast
  from t [THEN conjunct2, THEN conjunct2]
  obtain h' res where "extractEntities_h ?h 2 ''author'' ''id'' = Some (h', res)" and "untouched ?h h'"
    by (elim exE conjE) (rule that; assumption)
  then have 2: "\<exists>h' res. extractEntities_h ?h 2 ''author'' ''id'' = Some (h', res) \<and> untouched ?h h'"
    by blast
  from small_store_collection 1 2 show ?thesis
    by (intro conjI)
qed

text \<open>The two runs on that store, computed: the new objects follow the four given ones.\<close>

lemma small_store_normalize:
  "normalize_h
     [HRecord [(''id'', Data (Num 1)), (''title'', Data (Str ''P1'')),
               (''author'', Data (Obj [(''id'', Num 10), (''name'', Str ''John'')]))],
      HRecord [(''title'', Data (Str ''P2''))], HArray [0, 1], HMap [(''1'', 0)]] 2 ''id''
   = Some
      ([HRecord [(''id'', Data (Num 1)), (''title'', Data (Str ''P1'')),
                 (''author'', Data (Obj [(''id'', Num 10), (''name'', Str ''John'')]))],
        HRecord [(''title'', Data (Str ''P2''))], HArray [0, 1], HMap [(''1'', 0)],
        HMap [], HMap [(''1'', 0)]],
       [(missing_key_message ''id'', 1)], Inr 5)"
  by (simp add: normalize_h_def normalize_step_h_def store_alloc_def store_eval js_eval)

lemma small_store_extract:
  "extractEntities_h
     [HRecord [(''id'', Data (Num 1)), (''title'', Data (Str ''P1'')),
               (''author'', Data (Obj [(''id'', Num 10), (''name'', Str ''John'')]))],
      HRecord [(''title'', Data (Str ''P2''))], HArray [0, 1], HMap [(''1'', 0)]] 2 ''author'' ''id''
   = Some
      ([HRecord [(''id'', Data (Num 1)), (''title'', Data (Str ''P1'')),
                 (''author'', Data (Obj [(''id'', Num 10), (''name'', Str ''John'')]))],
        HRecord [(''title'', Data (Str ''P2''))], HArray [0, 1], HMap [(''1'', 0)],
        HEntities [(''10'', Data (Obj [(''id'', Num 10), (''name'', Str ''John'')]))] None,
        HItems [(''1'', 6), (''undefined'', 7)] None,
        HRecord [(''id'', Data (Num 1)), (''title'', Data (Str ''P1'')), (''authorId'', Data (Num 10))],
        HRecord [(''title'', Data (Str ''P2''))]],
       Inr (5, 4))"
  by (simp add: extractEntities_h_def extract_step_h_def store_item_h_def store_alloc_def
      record_set_def record_delete_def items_assign_def entities_assign_def shadows_at_def
      js_assign_def record_shadows_def store_eval js_eval)

end
